theory Spec2Isabelle
  imports Main "HOL-Library.Word" "HOL-Library.Sublist"
begin

section \<open>Data model\<close>

text \<open>
  Go strings are byte sequences: a \<^typ>\<open>string\<close> is a list of 8-bit characters, \<open>len\<close>
  is \<^const>\<open>length\<close>, \<open>strings.HasPrefix s p\<close> is \<^term>\<open>prefix p s\<close> and
  \<open>strings.Join xs ""\<close> is \<^const>\<open>concat\<close>.  Go's \<open>int\<close> (on a 64-bit target) and
  \<open>time.Duration\<close> are signed 64-bit integers: 64-bit words, whose \<open>+\<close> wraps and which
  are compared with the signed orders \<^const>\<open>word_sless\<close> and \<^const>\<open>word_sle\<close>.
  A \<open>time.Time\<close> is the number of nanoseconds since the zero instant \<open>time.Time{}\<close>;
  every handler receives the readings of \<open>time.Now()\<close> as arguments.
\<close>

type_synonym goint = "64 word"
type_synonym duration = "64 word"
type_synonym time = int

record Pattern =
  Name :: string
  Pattern :: string

record Mistake =
  Position :: int
  Expected :: string
  Actual :: string
  Timestamp :: time

record PatternStats =
  psPattern :: string
  psName :: string
  TotalAttempts :: goint
  PerfectCount :: goint
  TotalResets :: goint
  BestTime :: duration
  TotalTime :: duration
  CurrentStreak :: goint
  BestStreak :: goint
  LastPracticed :: time
  Mistakes :: "Mistake list"

record SessionRecord =
  StartTime :: time
  EndTime :: time
  Duration :: duration
  PatternsTotal :: goint
  PatternsPerfect :: goint
  Completed :: bool

record AllStats =
  PatternStats :: "string \<rightharpoonup> PatternStats"
  Sessions :: "SessionRecord list"
  TotalSessions :: goint
  TotalTrainTime :: duration
  LastUpdated :: time

section \<open>formatForDisplay\<close>

text \<open>
  The table \<open>displayIcons\<close>, each icon with the bytes that its string literal has in the
  source file.
\<close>

definition displayIcons :: "string \<rightharpoonup> string" where
  "displayIcons = map_of
     [(''LC'', [CHR 0xE2, CHR 0x80, CHR 0x9A, CHR 0xC3, CHR 0xB3, CHR 0xC3, CHR 0xAA]),
      (''RC'', [CHR 0xE2, CHR 0x80, CHR 0x9A, CHR 0xC3, CHR 0xB3, CHR 0xC3, CHR 0xAB]),
      (''MC'', [CHR 0xE2, CHR 0x80, CHR 0x9A, CHR 0xC3, CHR 0xB3, CHR 0xC3, CHR 0xA2]),
      (''SLC'', [CHR 0xE2, CHR 0x80, CHR 0x9A, CHR 0xC3, CHR 0xA1, CHR 0xC3, CHR 0x9F,
                 CHR 0xE2, CHR 0x80, CHR 0x9A, CHR 0xC3, CHR 0xB3, CHR 0xC3, CHR 0xAA]),
      (''SRC'', [CHR 0xE2, CHR 0x80, CHR 0x9A, CHR 0xC3, CHR 0xA1, CHR 0xC3, CHR 0x9F,
                 CHR 0xE2, CHR 0x80, CHR 0x9A, CHR 0xC3, CHR 0xB3, CHR 0xC3, CHR 0xAB]),
      (''F1'', ''[F1]''), (''F2'', ''[F2]''), (''F3'', ''[F3]''), (''F4'', ''[F4]''),
      (''F5'', ''[F5]''), (''F6'', ''[F6]''), (''F7'', ''[F7]''), (''F8'', ''[F8]''),
      (''F9'', ''[F9]''), (''F10'', ''[F10]''), (''F11'', ''[F11]''), (''F12'', ''[F12]'')]"

text \<open>
  \<open>strings.ReplaceAll\<close> for a non-empty \<open>old\<close>: the occurrences of \<open>old\<close> from left to
  right, without overlap, each replaced by \<open>new\<close>.  \<open>formatForDisplay\<close> passes only the
  tokens of its list, none of which is empty; for an empty \<open>old\<close>, which Go treats
  otherwise, the string is left as it is.
\<close>

function replaceAll :: "string \<Rightarrow> string \<Rightarrow> string \<Rightarrow> string" where
  "replaceAll old new [] = []"
| "replaceAll old new (c # cs) =
     (if old \<noteq> [] \<and> prefix old (c # cs)
      then new @ replaceAll old new (drop (length old) (c # cs))
      else c # replaceAll old new cs)"
  by pat_completeness auto
termination
proof (relation "measure (\<lambda>(old, new, s). length s)")
  show "wf (measure (\<lambda>(old, new, s). length s))" by simp
next
  fix old new :: string and c :: char and cs :: string
  assume "old \<noteq> [] \<and> prefix old (c # cs)"
  then show "((old, new, drop (length old) (c # cs)), (old, new, c # cs))
      \<in> measure (\<lambda>(old, new, s). length s)"
    by (cases old) simp_all
next
  fix old new :: string and c :: char and cs :: string
  show "((old, new, cs), (old, new, c # cs)) \<in> measure (\<lambda>(old, new, s). length s)"
    by simp
qed

text \<open>The token list of \<open>formatForDisplay\<close>, in the order of the source, and its loop.\<close>

definition formatTokens :: "string list" where
  "formatTokens = [''SLC'', ''SRC'', ''F10'', ''F11'', ''F12'', ''LC'', ''RC'', ''MC'',
                   ''F1'', ''F2'', ''F3'', ''F4'', ''F5'', ''F6'', ''F7'', ''F8'', ''F9'']"

definition formatForDisplay :: "string \<Rightarrow> string" where
  "formatForDisplay s =
     foldl (\<lambda>result token.
              case displayIcons token of
                Some icon \<Rightarrow> replaceAll token icon result
              | None \<Rightarrow> result)
       s formatTokens"

section \<open>getExpectedKey\<close>

text \<open>The literal list \<open>tokens\<close> of \<open>getExpectedKey\<close>, in the order of the source.\<close>

definition tokens :: "string list" where
  "tokens = [''SLC'', ''SRC'', ''F10'', ''F11'', ''F12'', ''LC'', ''RC'', ''MC'',
             ''F1'', ''F2'', ''F3'', ''F4'', ''F5'', ''F6'', ''F7'', ''F8'', ''F9'']"

text \<open>
  The inner loop \<open>for _, token := range tokens\<close>: the first token of the list that is a
  prefix of \<open>pattern[pos:]\<close>, if there is one (\<open>found\<close>).
\<close>

definition matchToken :: "string \<Rightarrow> string option" where
  "matchToken rest = List.find (\<lambda>token. prefix token rest) tokens"

text \<open>
  \<open>string(r)\<close> for a rune \<open>r\<close>: its UTF-8 encoding, the encoding of U+FFFD for a value that
  is no code point.
\<close>

definition runeString :: "int \<Rightarrow> string" where
  "runeString r =
     (if 0 \<le> r \<and> r < 0x80 then [char_of r]
      else if 0 \<le> r \<and> r < 0x800 then [char_of (0xC0 + r div 64), char_of (0x80 + r mod 64)]
      else if r < 0 \<or> 0x10FFFF < r \<or> (0xD800 \<le> r \<and> r \<le> 0xDFFF)
        then [CHR 0xEF, CHR 0xBF, CHR 0xBD]
      else if r < 0x10000
        then [char_of (0xE0 + r div 4096), char_of (0x80 + r div 64 mod 64),
              char_of (0x80 + r mod 64)]
      else [char_of (0xF0 + r div 262144), char_of (0x80 + r div 4096 mod 64),
            char_of (0x80 + r div 64 mod 64), char_of (0x80 + r mod 64)])"

text \<open>\<open>string(pattern[pos])\<close> converts the byte, as a code point, in the same way.\<close>

definition byteString :: "char \<Rightarrow> string" where
  "byteString c = runeString (of_char c)"

text \<open>The loop \<open>for pos < len(pattern)\<close> of \<open>getExpectedKey\<close>, from the position \<open>pos\<close>.\<close>

function getExpectedKeyFrom :: "string \<Rightarrow> int \<Rightarrow> nat \<Rightarrow> string" where
  "getExpectedKeyFrom pattern charPos pos =
     (if pos < length pattern then
        (case matchToken (drop pos pattern) of
           Some token \<Rightarrow>
             if int pos = charPos then token
             else getExpectedKeyFrom pattern charPos (pos + length token)
         | None \<Rightarrow>
             if int pos = charPos then byteString (pattern ! pos)
             else getExpectedKeyFrom pattern charPos (pos + 1))
      else ''?'')"
  by pat_completeness auto

lemma matchToken_in_tokens: "matchToken rest = Some t \<Longrightarrow> t \<in> set tokens \<and> prefix t rest"
  by (auto simp: matchToken_def find_Some_iff)

lemma tokens_nonempty: "t \<in> set tokens \<Longrightarrow> 0 < length t"
  by (auto simp: tokens_def)

lemma matchToken_length: "matchToken rest = Some t \<Longrightarrow> 0 < length t \<and> length t \<le> length rest"
  using matchToken_in_tokens [of rest t] tokens_nonempty [of t]
  by (auto simp: prefix_def)

termination getExpectedKeyFrom
proof (relation "measure (\<lambda>(pattern, charPos, pos). length pattern - pos)")
  show "wf (measure (\<lambda>(pattern, charPos, pos). length pattern - pos))" by simp
next
  fix pattern :: string and charPos :: int and pos :: nat and token :: string
  assume "pos < length pattern" and "matchToken (drop pos pattern) = Some token"
  then show "((pattern, charPos, pos + length token), (pattern, charPos, pos))
      \<in> measure (\<lambda>(pattern, charPos, pos). length pattern - pos)"
    using matchToken_length [of "drop pos pattern" token] by (cases token) simp_all
next
  fix pattern :: string and charPos :: int and pos :: nat
  assume "pos < length pattern"
  then show "((pattern, charPos, pos + 1), (pattern, charPos, pos))
      \<in> measure (\<lambda>(pattern, charPos, pos). length pattern - pos)"
    by simp
qed

definition getExpectedKey :: "string \<Rightarrow> int \<Rightarrow> string" where
  "getExpectedKey pattern charPos = getExpectedKeyFrom pattern charPos 0"


declare getExpectedKeyFrom.simps [simp del]

text \<open>
  The token sequence of a pattern string, as the Tokenizer of the spec produces it: the
  leftmost scan of \<open>getExpectedKey\<close>, keeping each token it steps over.  A position that
  starts no literal token is a token of one byte.
\<close>

function tokenSequence :: "string \<Rightarrow> string list" where
  "tokenSequence [] = []"
| "tokenSequence (c # cs) =
     (case matchToken (c # cs) of
        Some t \<Rightarrow> t # tokenSequence (drop (length t) (c # cs))
      | None \<Rightarrow> [c] # tokenSequence cs)"
  by pat_completeness auto
termination
proof (relation "measure length")
  show "wf (measure (length :: string \<Rightarrow> nat))" by simp
next
  fix c :: char and cs t :: string
  assume "matchToken (c # cs) = Some t"
  then show "(drop (length t) (c # cs), c # cs) \<in> measure length"
    using matchToken_length [of "c # cs" t] by (cases t) simp_all
next
  fix c :: char and cs :: string
  show "(cs, c # cs) \<in> measure length" by simp
qed

text \<open>
  What \<open>getExpectedKey\<close> returns for a token: the token, a single byte through
  \<open>string(pattern[pos])\<close>.
\<close>

definition displayed :: "string \<Rightarrow> string" where
  "displayed t = (case t of [c] \<Rightarrow> byteString c | _ \<Rightarrow> t)"

text \<open>The offset in the pattern string at which the \<open>k\<close>-th token starts.\<close>

definition tokenStart :: "string \<Rightarrow> nat \<Rightarrow> nat" where
  "tokenStart pattern k = length (concat (take k (tokenSequence pattern)))"

text \<open>The token of a sequence that starts at the offset \<open>d\<close>, \<open>"?"\<close> when none does.\<close>

fun lookupOffset :: "string list \<Rightarrow> int \<Rightarrow> string" where
  "lookupOffset [] d = ''?''"
| "lookupOffset (t # ts) d = (if d = 0 then displayed t else lookupOffset ts (d - int (length t)))"



section \<open>Statistics\<close>

text \<open>
  \<open>save\<close> stamps the aggregate and writes it to the stats file; its callers discard the
  error it returns, and the file is not part of the state modelled here.
\<close>

definition save :: "time \<Rightarrow> AllStats \<Rightarrow> AllStats" where
  "save now s = s\<lparr>LastUpdated := now\<rparr>"

text \<open>
  \<open>getPatternStats\<close> returns the row of the pattern string, creating it when absent.  The
  rows are reached through pointers in the source: a function that changes the row it
  got stores it back under the same key.
\<close>

definition newPatternStats :: "Pattern \<Rightarrow> PatternStats" where
  "newPatternStats pattern =
     \<lparr>psPattern = Pattern pattern, psName = Name pattern, TotalAttempts = 0,
      PerfectCount = 0, TotalResets = 0, BestTime = 0, TotalTime = 0, CurrentStreak = 0,
      BestStreak = 0, LastPracticed = 0, Mistakes = []\<rparr>"

definition getPatternStats :: "Pattern \<Rightarrow> AllStats \<Rightarrow> PatternStats \<times> AllStats" where
  "getPatternStats pattern s =
     (case PatternStats s (Pattern pattern) of
        Some ps \<Rightarrow> (ps, s)
      | None \<Rightarrow>
          (newPatternStats pattern,
           s\<lparr>PatternStats := (PatternStats s)(Pattern pattern \<mapsto> newPatternStats pattern)\<rparr>))"

definition recordAttempt :: "time \<Rightarrow> Pattern \<Rightarrow> duration \<Rightarrow> goint \<Rightarrow> AllStats \<Rightarrow> AllStats" where
  "recordAttempt now pattern elapsed resets s =
     (let (ps, s1) = getPatternStats pattern s;
          ps1 = ps\<lparr>TotalAttempts := TotalAttempts ps + 1,
                   TotalTime := TotalTime ps + elapsed,
                   TotalResets := TotalResets ps + resets,
                   LastPracticed := now\<rparr>;
          ps2 =
            (if resets = 0 then
               (let ps3 = ps1\<lparr>PerfectCount := PerfectCount ps1 + 1,
                               CurrentStreak := CurrentStreak ps1 + 1\<rparr>;
                    ps4 = (if BestStreak ps3 <s CurrentStreak ps3
                           then ps3\<lparr>BestStreak := CurrentStreak ps3\<rparr> else ps3)
                in if BestTime ps4 = 0 \<or> elapsed <s BestTime ps4
                   then ps4\<lparr>BestTime := elapsed\<rparr> else ps4)
             else ps1\<lparr>CurrentStreak := 0\<rparr>)
      in s1\<lparr>PatternStats := (PatternStats s1)(Pattern pattern \<mapsto> ps2)\<rparr>)"

definition recordMistake ::
  "time \<Rightarrow> Pattern \<Rightarrow> int \<Rightarrow> string \<Rightarrow> string \<Rightarrow> AllStats \<Rightarrow> AllStats" where
  "recordMistake now pattern position expected actual s =
     (let (ps, s1) = getPatternStats pattern s;
          mistake = \<lparr>Position = position, Expected = expected, Actual = actual,
                     Timestamp = now\<rparr>;
          ms = Mistakes ps @ [mistake];
          ms' = (if 100 < length ms then drop (length ms - 100) ms else ms)
      in s1\<lparr>PatternStats := (PatternStats s1)(Pattern pattern \<mapsto> ps\<lparr>Mistakes := ms'\<rparr>)\<rparr>)"

text \<open>\<open>Time.Sub\<close>, and so \<open>time.Since\<close>: the difference, saturated to the range of int64.\<close>

definition sub :: "time \<Rightarrow> time \<Rightarrow> duration" where
  "sub t u =
     (let d = t - u
      in if d < - (2 ^ 63) then word_of_int (- (2 ^ 63))
         else if 2 ^ 63 - 1 < d then word_of_int (2 ^ 63 - 1)
         else word_of_int d)"

definition endSession :: "time \<Rightarrow> time \<Rightarrow> goint \<Rightarrow> goint \<Rightarrow> bool \<Rightarrow> AllStats \<Rightarrow> AllStats" where
  "endSession endTime startTime tot perfect completed s =
     (let duration = sub endTime startTime;
          session = \<lparr>StartTime = startTime, EndTime = endTime, Duration = duration,
                     PatternsTotal = tot, PatternsPerfect = perfect,
                     Completed = completed\<rparr>
      in save endTime
           (s\<lparr>Sessions := Sessions s @ [session],
              TotalSessions := TotalSessions s + 1,
              TotalTrainTime := TotalTrainTime s + duration\<rparr>))"

text \<open>What \<open>loadStats\<close> returns when there is no stats file.\<close>

definition emptyStats :: AllStats where
  "emptyStats =
     \<lparr>PatternStats = Map.empty, Sessions = [], TotalSessions = 0, TotalTrainTime = 0,
      LastUpdated = 0\<rparr>"

text \<open>
  The row of a pattern string as a reader sees it: the stored row, or the zero row that
  \<open>getPatternStats\<close> would create.  \<open>BestTime = 0\<close> is how the source says that no best
  time is stored (\<open>ps.BestTime == 0\<close>, \<open>ps.BestTime > 0\<close>).
\<close>

definition bestTimeOf :: "AllStats \<Rightarrow> string \<Rightarrow> duration" where
  "bestTimeOf s k = (case PatternStats s k of None \<Rightarrow> 0 | Some ps \<Rightarrow> BestTime ps)"

definition currentStreakOf :: "AllStats \<Rightarrow> string \<Rightarrow> goint" where
  "currentStreakOf s k = (case PatternStats s k of None \<Rightarrow> 0 | Some ps \<Rightarrow> CurrentStreak ps)"

definition bestStreakOf :: "AllStats \<Rightarrow> string \<Rightarrow> goint" where
  "bestStreakOf s k = (case PatternStats s k of None \<Rightarrow> 0 | Some ps \<Rightarrow> BestStreak ps)"

definition mistakesOf :: "AllStats \<Rightarrow> string \<Rightarrow> Mistake list" where
  "mistakesOf s k = (case PatternStats s k of None \<Rightarrow> [] | Some ps \<Rightarrow> Mistakes ps)"

text \<open>A sequence of calls of \<open>recordAttempt\<close>: clock reading, pattern, elapsed time, resets.\<close>

fun recordAttempts :: "(time \<times> Pattern \<times> duration \<times> goint) list \<Rightarrow> AllStats \<Rightarrow> AllStats" where
  "recordAttempts [] s = s"
| "recordAttempts ((now, pattern, elapsed, resets) # rest) s =
     recordAttempts rest (recordAttempt now pattern elapsed resets s)"

section \<open>The application state\<close>

text \<open>
  Of the widgets only the text of \<open>statusLabel\<close> is kept, as the message it shows.
  \<open>NilDereference\<close> stands for the panic of reading \<open>ps.BestTime\<close> through a nil row.
\<close>

datatype status =
    StatusIdle
  | StatusEmpty
  | StatusExpected string
  | StatusNewBest duration
  | StatusTime duration
  | StatusRetry goint
  | StatusEnded goint goint
  | StatusMastered nat
  | NilDereference

text \<open>
  \<open>pending\<close> counts the goroutines started by \<open>finishPattern\<close> whose deferred call has not
  run yet.
\<close>

record App =
  allPatterns :: "Pattern list"
  patternQueue :: "Pattern list"
  currentIndex :: goint
  currentPattern :: Pattern
  inputBuffer :: "string list"
  isActive :: bool
  inSession :: bool
  startTime :: time
  resetCount :: goint
  sessionPerfect :: goint
  sessionTotal :: goint
  sessionStart :: time
  stats :: AllStats
  statusLabel :: status
  pending :: nat

text \<open>The state built by \<open>main\<close>: the loaded patterns and statistics, every other field zero.\<close>

definition initApp :: "Pattern list \<Rightarrow> AllStats \<Rightarrow> App" where
  "initApp pats st =
     \<lparr>allPatterns = pats, patternQueue = [], currentIndex = 0,
      currentPattern = \<lparr>Name = [], Pattern = []\<rparr>, inputBuffer = [], isActive = False,
      inSession = False, startTime = 0, resetCount = 0, sessionPerfect = 0,
      sessionTotal = 0, sessionStart = 0, stats = st, statusLabel = StatusIdle,
      pending = 0\<rparr>"

text \<open>
  \<open>rand.Shuffle\<close>: for \<open>i\<close> from \<open>n - 1\<close> down to 1, swap the elements at \<open>i\<close> and at a
  random \<open>j \<le> i\<close>.  The random source is the function \<open>rnd\<close>, read at \<open>i\<close>.
\<close>

fun shuffleFrom :: "(nat \<Rightarrow> nat) \<Rightarrow> nat \<Rightarrow> 'a list \<Rightarrow> 'a list" where
  "shuffleFrom rnd 0 xs = xs"
| "shuffleFrom rnd (Suc i) xs =
     (let j = rnd (Suc i) mod (Suc i + 1)
      in shuffleFrom rnd i (xs[Suc i := xs ! j, j := xs ! Suc i]))"

definition shufflePatterns :: "(nat \<Rightarrow> nat) \<Rightarrow> App \<Rightarrow> App" where
  "shufflePatterns rnd app =
     app\<lparr>patternQueue := shuffleFrom rnd (length (allPatterns app) - 1) (allPatterns app)\<rparr>"

definition sessionComplete :: "time \<Rightarrow> App \<Rightarrow> App" where
  "sessionComplete now app =
     app\<lparr>inSession := False, isActive := False,
         stats := endSession now (sessionStart app) (sessionTotal app) (sessionPerfect app)
                    True (stats app),
         statusLabel := StatusMastered (length (allPatterns app))\<rparr>"

definition stopSession :: "time \<Rightarrow> App \<Rightarrow> App" where
  "stopSession now app =
     app\<lparr>inSession := False, isActive := False,
         stats := endSession now (sessionStart app) (sessionTotal app) (sessionPerfect app)
                    False (stats app),
         statusLabel := StatusEnded (sessionPerfect app) (sessionTotal app)\<rparr>"

definition nextPattern :: "time \<Rightarrow> App \<Rightarrow> App" where
  "nextPattern now app =
     (if \<not> inSession app then app
      else case patternQueue app of
        [] \<Rightarrow> sessionComplete now app
      | p # q \<Rightarrow>
          app\<lparr>currentPattern := p, patternQueue := q, inputBuffer := [], resetCount := 0,
              isActive := True, startTime := 0, statusLabel := StatusEmpty\<rparr>)"

definition startSession :: "(nat \<Rightarrow> nat) \<Rightarrow> time \<Rightarrow> App \<Rightarrow> App" where
  "startSession rnd now app =
     nextPattern now
       ((shufflePatterns rnd app)
          \<lparr>currentIndex := 0, inSession := True, sessionPerfect := 0, sessionTotal := 0,
           sessionStart := now\<rparr>)"

text \<open>
  \<open>finishPattern\<close>, with the reading \<open>fin\<close> of the clock.  Its last statement starts the
  goroutine that will call \<open>nextPattern\<close> after 400 ms: one more pending call.
\<close>

definition finishPattern :: "time \<Rightarrow> App \<Rightarrow> App" where
  "finishPattern fin app =
     (if \<not> isActive app then app
      else
        let elapsed = sub fin (startTime app);
            app1 = app\<lparr>isActive := False, sessionTotal := sessionTotal app + 1,
                       stats := save fin (recordAttempt fin (currentPattern app) elapsed
                                  (resetCount app) (stats app))\<rparr>;
            app2 =
              (if resetCount app1 = 0 then
                 app1\<lparr>sessionPerfect := sessionPerfect app1 + 1,
                      statusLabel :=
                        (case PatternStats (stats app1) (Pattern (currentPattern app1)) of
                           None \<Rightarrow> NilDereference
                         | Some ps \<Rightarrow>
                             if elapsed = BestTime ps then StatusNewBest elapsed
                             else StatusTime elapsed)\<rparr>
               else
                 app1\<lparr>patternQueue := patternQueue app1 @ [currentPattern app1],
                      statusLabel := StatusRetry (resetCount app1)\<rparr>)
        in app2\<lparr>pending := Suc (pending app2)\<rparr>)"

text \<open>
  \<open>addKey\<close>, with the reading \<open>now\<close> of the clock in its own body and the later reading
  \<open>fin\<close> inside \<open>finishPattern\<close>.
\<close>

definition addKey :: "time \<Rightarrow> time \<Rightarrow> string \<Rightarrow> App \<Rightarrow> App" where
  "addKey now fin key app =
     (if \<not> isActive app then app
      else
        let testInput = concat (inputBuffer app @ [key])
        in if \<not> prefix testInput (Pattern (currentPattern app)) then
             (if length (inputBuffer app) = 0 then app
              else
                let position = int (length testInput) - int (length key);
                    expected = getExpectedKey (Pattern (currentPattern app)) position
                in app\<lparr>stats := save now (recordMistake now (currentPattern app) position
                                    expected key (stats app)),
                       resetCount := resetCount app + 1,
                       inputBuffer := [],
                       statusLabel := StatusExpected (formatForDisplay expected)\<rparr>)
           else
             let app1 = (if startTime app = 0 then app\<lparr>startTime := now\<rparr> else app);
                 app2 = app1\<lparr>inputBuffer := inputBuffer app1 @ [key]\<rparr>;
                 currentInput = concat (inputBuffer app2)
             in if length (Pattern (currentPattern app2)) \<le> length currentInput
                then finishPattern fin app2 else app2)"

text \<open>The deferred call of a goroutine of \<open>finishPattern\<close>, run on the event loop.\<close>

definition advance :: "time \<Rightarrow> App \<Rightarrow> App" where
  "advance now app =
     (if pending app = 0 then app
      else
        let app1 = app\<lparr>pending := pending app - 1\<rparr>
        in if inSession app1 then nextPattern now app1 else app1)"

text \<open>The key names of the toolkit that the handlers distinguish.\<close>

datatype KeyName =
    KeyF1 | KeyF2 | KeyF3 | KeyF4 | KeyF5 | KeyF6 | KeyF7 | KeyF8 | KeyF9 | KeyF10
  | KeyF11 | KeyF12 | KeyReturn | KeyEnter | KeySpace | KeyEscape | KeyOther string

text \<open>The table \<open>keyNames\<close>.\<close>

fun keyNames :: "KeyName \<Rightarrow> string option" where
  "keyNames KeyF1 = Some ''F1''"
| "keyNames KeyF2 = Some ''F2''"
| "keyNames KeyF3 = Some ''F3''"
| "keyNames KeyF4 = Some ''F4''"
| "keyNames KeyF5 = Some ''F5''"
| "keyNames KeyF6 = Some ''F6''"
| "keyNames KeyF7 = Some ''F7''"
| "keyNames KeyF8 = Some ''F8''"
| "keyNames KeyF9 = Some ''F9''"
| "keyNames KeyF10 = Some ''F10''"
| "keyNames KeyF11 = Some ''F11''"
| "keyNames KeyF12 = Some ''F12''"
| "keyNames KeyReturn = Some ''Enter''"
| "keyNames KeyEnter = Some ''Enter''"
| "keyNames KeySpace = Some '' ''"
| "keyNames KeyEscape = Some ''ESC''"
| "keyNames (KeyOther name) = None"

text \<open>
  The handlers of \<open>FullWindowInput\<close>, with the random source of the shuffle and the
  readings of the clock as arguments.
\<close>

datatype MouseButton =
  MouseButtonPrimary | MouseButtonSecondary | MouseButtonTertiary | MouseButtonOther

definition TypedKey :: "(nat \<Rightarrow> nat) \<Rightarrow> time \<Rightarrow> time \<Rightarrow> KeyName \<Rightarrow> App \<Rightarrow> App" where
  "TypedKey rnd now fin key app =
     (if key = KeyEscape \<and> inSession app then stopSession now app
      else if \<not> inSession app \<and> (key = KeySpace \<or> key = KeyReturn \<or> key = KeyEnter)
        then startSession rnd now app
      else if \<not> isActive app then app
      else case keyNames key of
        Some name \<Rightarrow>
          if name \<noteq> ''ESC'' \<and> name \<noteq> ''Enter'' then addKey now fin name app else app
      | None \<Rightarrow> app)"

definition TypedRune :: "time \<Rightarrow> time \<Rightarrow> int \<Rightarrow> App \<Rightarrow> App" where
  "TypedRune now fin r app =
     (if \<not> isActive app then app else addKey now fin (runeString r) app)"

definition MouseDown :: "time \<Rightarrow> time \<Rightarrow> MouseButton \<Rightarrow> bool \<Rightarrow> App \<Rightarrow> App" where
  "MouseDown now fin button shift app =
     (if \<not> isActive app then app
      else case button of
        MouseButtonPrimary \<Rightarrow>
          if shift then addKey now fin ''SLC'' app else addKey now fin ''LC'' app
      | MouseButtonSecondary \<Rightarrow>
          if shift then addKey now fin ''SRC'' app else addKey now fin ''RC'' app
      | MouseButtonTertiary \<Rightarrow> addKey now fin ''MC'' app
      | MouseButtonOther \<Rightarrow> app)"

text \<open>
  The events of the single event loop, as what the handlers do with them: a token passed
  to \<open>addKey\<close>, a session started (SPACE or ENTER when none runs), a session stopped (ESC
  when one runs), and the deferred call of a goroutine of \<open>finishPattern\<close> delivered.
\<close>

datatype event =
    AddKey time time string
  | StartSession "nat \<Rightarrow> nat" time
  | StopSession time
  | Advance time

fun step :: "App \<Rightarrow> event \<Rightarrow> App" where
  "step app (AddKey now fin key) = addKey now fin key app"
| "step app (StartSession rnd now) = (if inSession app then app else startSession rnd now app)"
| "step app (StopSession now) = (if inSession app then stopSession now app else app)"
| "step app (Advance now) = advance now app"

definition run :: "App \<Rightarrow> event list \<Rightarrow> App" where
  "run app evs = foldl step app evs"

section \<open>Invariant and sample sessions\<close>

text \<open>
  The relation between the buffer and the active pattern that \<open>addKey\<close> maintains: the
  joined buffer is a prefix of the pattern string, and differs from it while the pattern
  is active, unless the pattern string is empty.
\<close>

definition prefixInv :: "App \<Rightarrow> bool" where
  "prefixInv s \<longleftrightarrow>
     prefix (concat (inputBuffer s)) (Pattern (currentPattern s)) \<and>
     (isActive s \<and> Pattern (currentPattern s) \<noteq> [] \<longrightarrow>
        concat (inputBuffer s) \<noteq> Pattern (currentPattern s))"

text \<open>
  Patterns as \<open>loadPatternsFromFile\<close> reads them from the lines \<open>a\<close>, \<open>b\<close>, \<open>1aLC\<close> and
  \<open>Name|\<close>, and two of \<open>defaultPatterns\<close>.
\<close>

definition pA :: Pattern where "pA = \<lparr>Name = ''a'', Pattern = ''a''\<rparr>"

definition pB :: Pattern where "pB = \<lparr>Name = ''b'', Pattern = ''b''\<rparr>"

definition p1aLC :: Pattern where "p1aLC = \<lparr>Name = ''1aLC'', Pattern = ''1aLC''\<rparr>"

definition pEmpty :: Pattern where "pEmpty = \<lparr>Name = ''Name'', Pattern = []\<rparr>"

definition pFKeys :: Pattern where
  "pFKeys = \<lparr>Name = ''F-Key Cycle'', Pattern = ''F1aF2aF3a''\<rparr>"

definition pClicks :: Pattern where
  "pClicks = \<lparr>Name = ''Click Practice'', Pattern = ''LCaRCa''\<rparr>"

text \<open>
  A session of the one pattern \<open>a\<close> completed in 5 ns, and the start of a second session
  of it; \<open>tieKey\<close> then completes it in 5 ns again.
\<close>

definition tieTrace :: "event list" where
  "tieTrace = [StartSession (\<lambda>_. 0) 1, AddKey 10 15 ''a'', Advance 500,
               StartSession (\<lambda>_. 0) 600]"

definition tieKey :: event where
  "tieKey = AddKey 700 705 ''a''"

text \<open>
  The same with a first completion in 0 ns: the second session starts with a recorded
  perfect completion and a stored best time of zero.
\<close>

definition zeroTrace :: "event list" where
  "zeroTrace = [StartSession (\<lambda>_. 0) 1, AddKey 10 10 ''a'', Advance 500,
                StartSession (\<lambda>_. 0) 600]"

text \<open>
  The session of \<open>1aLC\<close> after the keys \<open>1\<close> and \<open>a\<close>, the session of the clicks after a
  left click, and the session of the function keys after the characters \<open>F\<close> and \<open>1\<close>.
\<close>

definition resetTrace :: "event list" where
  "resetTrace = [StartSession (\<lambda>_. 0) 1, AddKey 10 10 ''1'', AddKey 20 20 ''a'']"

definition clickTrace :: "event list" where
  "clickTrace = [StartSession (\<lambda>_. 0) 1, AddKey 10 10 ''LC'']"

definition fKeyTrace :: "event list" where
  "fKeyTrace = [StartSession (\<lambda>_. 0) 1, AddKey 10 10 ''F'', AddKey 20 20 ''1'']"

text \<open>
  The state in which \<open>startSession\<close> calls \<open>nextPattern\<close>, for the one pattern of the line
  \<open>Name|\<close>.
\<close>

definition emptyStart :: App where
  "emptyStart =
     (shufflePatterns (\<lambda>_. 0) (initApp [pEmpty] emptyStats))
       \<lparr>currentIndex := 0, inSession := True, sessionPerfect := 0, sessionTotal := 0,
        sessionStart := 1\<rparr>"

text \<open>
  A token submission (the handlers pass non-empty strings to \<open>addKey\<close>), and the delivery
  of a deferred call.
\<close>

definition isTokenEvent :: "event \<Rightarrow> bool" where
  "isTokenEvent ev = (case ev of AddKey now fin key \<Rightarrow> key \<noteq> [] | _ \<Rightarrow> False)"

definition isAdvance :: "event \<Rightarrow> bool" where
  "isAdvance ev = (case ev of Advance now \<Rightarrow> True | _ \<Rightarrow> False)"

text \<open>
  The condition under which \<open>addKey\<close> reaches \<open>finishPattern\<close>, and the patterns completed
  with a reset counter of zero along a sequence of events.
\<close>

definition completes :: "App \<Rightarrow> string \<Rightarrow> bool" where
  "completes app key \<longleftrightarrow>
     isActive app \<and>
     prefix (concat (inputBuffer app @ [key])) (Pattern (currentPattern app)) \<and>
     length (Pattern (currentPattern app)) \<le> length (concat (inputBuffer app @ [key]))"

fun perfectCompletions :: "App \<Rightarrow> event list \<Rightarrow> Pattern list" where
  "perfectCompletions app [] = []"
| "perfectCompletions app (ev # evs) =
     (case ev of
        AddKey now fin key \<Rightarrow>
          if completes app key \<and> resetCount app = 0 then [currentPattern app] else []
      | _ \<Rightarrow> []) @ perfectCompletions (step app ev) evs"

text \<open>
  Two sessions of the patterns \<open>a\<close> and \<open>b\<close>.  The first is stopped (ESC) while the
  deferred call of its completion of \<open>b\<close> is pending; the second is started (SPACE) before
  that call is delivered.
\<close>

definition staleTrace :: "event list" where
  "staleTrace =
     [StartSession (\<lambda>_. 0) 1, AddKey 10 15 ''b'', StopSession 100, StartSession (\<lambda>_. 1) 200,
      Advance 415, AddKey 500 505 ''b'', Advance 905]"

text \<open>
  Two sessions of the patterns \<open>a\<close> and of the line \<open>Name|\<close>.  The first is stopped while
  the deferred call of its completion of \<open>a\<close> is pending; in the second, \<open>a\<close> is completed
  again before that call is delivered.  At the end of the trace the first call has been
  delivered and the second is pending.
\<close>

definition emptyStaleTrace :: "event list" where
  "emptyStaleTrace =
     [StartSession (\<lambda>_. 1) 1, AddKey 10 15 ''a'', StopSession 100, StartSession (\<lambda>_. 1) 200,
      AddKey 300 305 ''a'', Advance 415]"

text \<open>
  The events of a running session other than its stop and the start of another one, and
  what holds during a session that starts with no deferred call pending: every pattern is
  among those completed with zero resets so far (\<open>done\<close>), in the queue, or the active
  one, and a deferred call is pending exactly while no pattern is active.
\<close>

definition isKeyOrAdvance :: "event \<Rightarrow> bool" where
  "isKeyOrAdvance ev =
     (case ev of AddKey now fin key \<Rightarrow> True | Advance now \<Rightarrow> True | _ \<Rightarrow> False)"

definition cleanInv :: "Pattern list \<Rightarrow> App \<Rightarrow> bool" where
  "cleanInv done s \<longleftrightarrow>
     (if inSession s then
        set (allPatterns s) \<subseteq>
          set done \<union> set (patternQueue s) \<union> (if isActive s then {currentPattern s} else {}) \<and>
        pending s = (if isActive s then 0 else 1)
      else set (allPatterns s) \<subseteq> set done)"

section \<open>Properties of the tokenizer\<close>

lemma tokens_sorted: "sorted_wrt (\<lambda>a b. length b \<le> length a) tokens"
  by (simp add: tokens_def)

lemma matchToken_longest:
  assumes "matchToken rest = Some t" "u \<in> set tokens" "prefix u rest"
  shows "length u \<le> length t"
proof -
  from assms(1) obtain i where i: "i < length tokens" "tokens ! i = t"
    "\<forall>j<i. \<not> prefix (tokens ! j) rest"
    by (auto simp: matchToken_def find_Some_iff)
  from assms(2) obtain j where j: "j < length tokens" "tokens ! j = u"
    by (auto simp: in_set_conv_nth)
  have "i \<le> j" using i(3) j(2) assms(3) by (meson not_le_imp_less)
  show ?thesis
  proof (cases "i = j")
    case True then show ?thesis using i j by simp
  next
    case False
    then have "i < j" using \<open>i \<le> j\<close> by simp
    then show ?thesis using tokens_sorted j(1) i(2) j(2)
      by (auto simp: sorted_wrt_iff_nth_less)
  qed
qed

lemma displayed_literal: "t \<in> set tokens \<Longrightarrow> displayed t = t"
  by (auto simp: tokens_def displayed_def)

lemma matchToken_displayed: "matchToken rest = Some t \<Longrightarrow> displayed t = t"
  using matchToken_in_tokens displayed_literal by blast

lemma tokenSequence_drop_None:
  assumes "pos < length p" "matchToken (drop pos p) = None"
  shows "tokenSequence (drop pos p) = [p ! pos] # tokenSequence (drop (Suc pos) p)"
proof -
  have d: "drop pos p = p ! pos # drop (Suc pos) p"
    using assms(1) by (simp add: Cons_nth_drop_Suc)
  have "tokenSequence (p ! pos # drop (Suc pos) p) =
      [p ! pos] # tokenSequence (drop (Suc pos) p)"
    using assms(2) unfolding d by simp
  then show ?thesis unfolding d .
qed

lemma tokenSequence_drop_Some:
  assumes "pos < length p" "matchToken (drop pos p) = Some t"
  shows "tokenSequence (drop pos p) = t # tokenSequence (drop (pos + length t) p)"
proof -
  have d: "drop pos p = p ! pos # drop (Suc pos) p"
    using assms(1) by (simp add: Cons_nth_drop_Suc)
  have "tokenSequence (p ! pos # drop (Suc pos) p) =
      t # tokenSequence (drop (length t) (p ! pos # drop (Suc pos) p))"
    using assms(2) unfolding d by simp
  then have "tokenSequence (drop pos p) = t # tokenSequence (drop (length t) (drop pos p))"
    unfolding d .
  then show ?thesis by (simp add: add.commute)
qed

lemma getExpectedKeyFrom_lookup:
  "getExpectedKeyFrom p c pos = lookupOffset (tokenSequence (drop pos p)) (c - int pos)"
proof (induction p c pos rule: getExpectedKeyFrom.induct)
  case (1 pattern charPos pos)
  show ?case
  proof (cases "pos < length pattern")
    case False
    then show ?thesis by (subst getExpectedKeyFrom.simps) simp
  next
    case inside: True
    show ?thesis
    proof (cases "matchToken (drop pos pattern)")
      case None
      note ts = tokenSequence_drop_None [OF inside None]
      show ?thesis
      proof (cases "int pos = charPos")
        case True
        with None inside show ?thesis
          by (subst getExpectedKeyFrom.simps) (simp add: ts displayed_def)
      next
        case False
        have "getExpectedKeyFrom pattern charPos (pos + 1) =
          lookupOffset (tokenSequence (drop (pos + 1) pattern)) (charPos - int (pos + 1))"
          using "1.IH"(1) [OF inside None False] .
        then have "getExpectedKeyFrom pattern charPos (Suc pos) =
          lookupOffset (tokenSequence (drop (Suc pos) pattern)) (charPos - int pos - 1)"
          by (simp add: algebra_simps)
        with False None inside show ?thesis
          by (subst getExpectedKeyFrom.simps) (simp add: ts)
      qed
    next
      case (Some t)
      note ts = tokenSequence_drop_Some [OF inside Some]
      show ?thesis
      proof (cases "int pos = charPos")
        case True
        with Some inside show ?thesis
          by (subst getExpectedKeyFrom.simps) (simp add: ts matchToken_displayed [OF Some])
      next
        case False
        have "getExpectedKeyFrom pattern charPos (pos + length t) =
          lookupOffset (tokenSequence (drop (pos + length t) pattern))
            (charPos - int (pos + length t))"
          using "1.IH"(2) [OF inside Some False] .
        then have "getExpectedKeyFrom pattern charPos (pos + length t) =
          lookupOffset (tokenSequence (drop (pos + length t) pattern))
            (charPos - int pos - int (length t))"
          by (simp add: algebra_simps)
        with False Some inside show ?thesis
          by (subst getExpectedKeyFrom.simps) (simp add: ts)
      qed
    qed
  qed
qed

lemma tokenSequence_nonempty: "t \<in> set (tokenSequence p) \<Longrightarrow> t \<noteq> []"
proof (induction p rule: tokenSequence.induct)
  case 1
  then show ?case by simp
next
  case (2 c cs)
  then show ?case
    using matchToken_length [of "c # cs"]
    by (cases "matchToken (c # cs)") auto
qed

lemma concat_tokenSequence: "concat (tokenSequence p) = p"
proof (induction p rule: tokenSequence.induct)
  case 1
  then show ?case by simp
next
  case (2 c cs)
  show ?case
  proof (cases "matchToken (c # cs)")
    case None
    with 2 show ?thesis by simp
  next
    case (Some t)
    then have "prefix t (c # cs)" using matchToken_in_tokens by blast
    then have "t @ drop (length t) (c # cs) = c # cs"
      by (metis append_eq_conv_conj prefix_def)
    with Some 2 show ?thesis by simp
  qed
qed

lemma lookupOffset_start:
  "\<forall>t\<in>set ts. t \<noteq> [] \<Longrightarrow> k < length ts \<Longrightarrow>
   lookupOffset ts (int (length (concat (take k ts)))) = displayed (ts ! k)"
proof (induction ts arbitrary: k)
  case Nil
  then show ?case by simp
next
  case (Cons t ts)
  show ?case
  proof (cases k)
    case 0
    then show ?thesis by simp
  next
    case (Suc j)
    with Cons.prems have j: "j < length ts" and "t \<noteq> []" by simp_all
    then have "int (length t) + int (length (concat (take j ts))) \<noteq> 0"
      by (cases t) simp_all
    with Cons.IH [of j] Cons.prems(1) Suc j show ?thesis by simp
  qed
qed

lemma lookupOffset_other:
  "\<forall>k<length ts. d \<noteq> int (length (concat (take k ts))) \<Longrightarrow> lookupOffset ts d = ''?''"
proof (induction ts arbitrary: d)
  case Nil
  then show ?case by simp
next
  case (Cons t ts)
  from Cons.prems [rule_format, of 0] have "d \<noteq> 0" by simp
  have "\<forall>k<length ts. d - int (length t) \<noteq> int (length (concat (take k ts)))"
  proof (intro allI impI)
    fix k assume "k < length ts"
    with Cons.prems [rule_format, of "Suc k"] show "d - int (length t) \<noteq> int (length (concat (take k ts)))"
      by simp
  qed
  with Cons.IH [of "d - int (length t)"] \<open>d \<noteq> 0\<close> show ?case by simp
qed

lemma matchToken_exists:
  assumes "u \<in> set tokens" "prefix u rest"
  shows "\<exists>t. matchToken rest = Some t \<and> prefix t rest \<and> length u \<le> length t"
proof (cases "matchToken rest")
  case None
  with assms show ?thesis by (auto simp: matchToken_def find_None_iff)
next
  case (Some t)
  with assms matchToken_longest [OF Some assms] matchToken_in_tokens [OF Some]
  show ?thesis by simp
qed


lemma byteString_C3: "byteString (CHR 0xC3) = [CHR 0xC3, CHR 0x83]"
  by code_simp




lemma getExpectedKey_token_starts:
  "(\<forall>k<length (tokenSequence p).
      getExpectedKey p (int (tokenStart p k)) = displayed (tokenSequence p ! k)) \<and>
   (\<forall>c. (\<forall>k<length (tokenSequence p). c \<noteq> int (tokenStart p k)) \<longrightarrow>
      getExpectedKey p c = ''?'')"
  using getExpectedKeyFrom_lookup [of p _ 0] lookupOffset_start [of "tokenSequence p"]
    lookupOffset_other [of "tokenSequence p"] tokenSequence_nonempty [of _ p]
  by (simp add: getExpectedKey_def tokenStart_def)




text \<open>
  A token of one byte of value 128 or more is not returned as it is:
  \<open>string(pattern[pos])\<close> encodes the byte as a code point.
\<close>

lemma getExpectedKey_high_byte:
  "tokenSequence [CHR 0xC3, CHR 0xA9] = [[CHR 0xC3], [CHR 0xA9]] \<and>
   getExpectedKey [CHR 0xC3, CHR 0xA9] 0 = [CHR 0xC3, CHR 0x83]"
  by (simp add: getExpectedKey_def getExpectedKeyFrom.simps matchToken_def tokens_def
      byteString_C3)

lemma matchToken_longest_literal:
  assumes "u \<in> set tokens" "prefix u rest"
  shows "\<exists>t. matchToken rest = Some t \<and> t \<in> set tokens \<and> prefix t rest \<and>
           length u \<le> length t"
  using matchToken_exists [OF assms] matchToken_in_tokens by blast

lemma tokenSequence_tail:
  assumes "tokenSequence rest = t # ts"
  shows "tokenSequence (drop (length t) rest) = ts"
proof (cases rest)
  case Nil
  with assms show ?thesis by simp
next
  case (Cons c cs)
  with assms show ?thesis by (cases "matchToken (c # cs)") auto
qed

lemma tokenSequence_drop_start:
  "k \<le> length (tokenSequence p) \<Longrightarrow>
   tokenSequence (drop (tokenStart p k) p) = drop k (tokenSequence p)"
proof (induction k)
  case 0
  then show ?case by (simp add: tokenStart_def)
next
  case (Suc k)
  then have k: "k < length (tokenSequence p)" by simp
  let ?ts = "tokenSequence p"
  have "tokenSequence (drop (tokenStart p k) p) = ?ts ! k # drop (Suc k) ?ts"
    using Suc.IH k by (simp add: Cons_nth_drop_Suc)
  from tokenSequence_tail [OF this]
  have "tokenSequence (drop (length (?ts ! k)) (drop (tokenStart p k) p)) = drop (Suc k) ?ts" .
  moreover have "tokenStart p (Suc k) = tokenStart p k + length (?ts ! k)"
    using k by (simp add: tokenStart_def take_Suc_conv_app_nth)
  ultimately show ?case by (simp add: add.commute)
qed

lemma tokenSequence_head:
  assumes "matchToken rest = Some t"
  shows "\<exists>ts. tokenSequence rest = t # ts"
proof (cases rest)
  case Nil
  with assms matchToken_length [of rest t] show ?thesis by simp
next
  case (Cons c cs)
  with assms show ?thesis by simp
qed

lemma getExpectedKey_longest:
  assumes "k < length (tokenSequence p)" and "u \<in> set tokens"
    and "prefix u (drop (tokenStart p k) p)"
  shows "getExpectedKey p (int (tokenStart p k)) \<in> set tokens \<and>
         prefix (getExpectedKey p (int (tokenStart p k))) (drop (tokenStart p k) p) \<and>
         length u \<le> length (getExpectedKey p (int (tokenStart p k)))"
proof -
  let ?rest = "drop (tokenStart p k) p"
  from matchToken_longest_literal [OF assms(2,3)] obtain t where
    t: "matchToken ?rest = Some t" "t \<in> set tokens" "prefix t ?rest" "length u \<le> length t"
    by blast
  from tokenSequence_head [OF t(1)] obtain ts where "tokenSequence ?rest = t # ts" by blast
  then have "drop k (tokenSequence p) = t # ts"
    using tokenSequence_drop_start [of k p] assms(1) by simp
  then have "tokenSequence p ! k = t"
    using assms(1) by (metis nth_via_drop)
  then have "getExpectedKey p (int (tokenStart p k)) = t"
    using getExpectedKey_token_starts [of p] assms(1) displayed_literal [OF t(2)] by simp
  with t show ?thesis by simp
qed

lemma getExpectedKey_F10: "getExpectedKey ''aF10b'' 1 = ''F10'' \<and> getExpectedKey ''SLC'' 0 = ''SLC''"
  by (simp add: getExpectedKey_def getExpectedKeyFrom.simps matchToken_def tokens_def)

lemma formatForDisplay_SLC: "displayIcons ''SLC'' = Some (formatForDisplay ''SLC'')"
  by code_simp

text \<open>
  Claim C9 at the token \<open>F10\<close>.  In the lookup the scan takes the longest literal that
  starts at a position (\<open>getExpectedKey_longest\<close>), and both functions take \<open>SLC\<close> as one
  token.  \<open>formatForDisplay\<close> replaces \<open>F10\<close> by its icon \<open>[F10]\<close> first, but the icon
  holds the text of the token, and the later pass for \<open>F1\<close> matches inside it: the display
  of \<open>F10\<close> is the icon of \<open>F1\<close> and a stray \<open>0\<close> within the brackets of the icon of
  \<open>F10\<close>; the same for \<open>F11\<close> and \<open>F12\<close>.
\<close>

theorem C9_format_F10:
  "displayIcons ''F10'' = Some ''[F10]'' \<and> formatForDisplay ''F10'' = ''[[F1]0]'' \<and>
   formatForDisplay ''F11'' = ''[[F1]1]'' \<and> formatForDisplay ''F12'' = ''[[F1]2]''"
  by code_simp

section \<open>Properties of the statistics\<close>

lemma observers_empty:
  "bestTimeOf emptyStats k = 0" "currentStreakOf emptyStats k = 0" "bestStreakOf emptyStats k = 0"
  by (simp_all add: bestTimeOf_def currentStreakOf_def bestStreakOf_def emptyStats_def)

lemma bestTimeOf_recordAttempt:
  "bestTimeOf (recordAttempt now p e r s) k =
     (if k = Pattern p \<and> r = 0 \<and> (bestTimeOf s k = 0 \<or> e <s bestTimeOf s k) then e
      else bestTimeOf s k)"
  by (simp add: bestTimeOf_def recordAttempt_def getPatternStats_def newPatternStats_def
      Let_def split: option.split)

lemma currentStreakOf_recordAttempt:
  "currentStreakOf (recordAttempt now p e r s) k =
     (if k = Pattern p then (if r = 0 then currentStreakOf s k + 1 else 0)
      else currentStreakOf s k)"
  by (simp add: currentStreakOf_def recordAttempt_def getPatternStats_def newPatternStats_def
      Let_def split: option.split)

lemma bestStreakOf_recordAttempt:
  "bestStreakOf (recordAttempt now p e r s) k =
     (if k = Pattern p \<and> r = 0 \<and> bestStreakOf s k <s currentStreakOf s k + 1
      then currentStreakOf s k + 1 else bestStreakOf s k)"
  by (simp add: bestStreakOf_def currentStreakOf_def recordAttempt_def getPatternStats_def
      newPatternStats_def Let_def split: option.split)

lemma bestTimeOf_save: "bestTimeOf (save now s) k = bestTimeOf s k"
  by (simp add: bestTimeOf_def save_def)

lemma recordAttempt_row_exists:
  "\<exists>ps. PatternStats (recordAttempt now p e r s) (Pattern p) = Some ps"
  by (simp add: recordAttempt_def getPatternStats_def Let_def split: option.split)

lemma bestTimeOf_recordAttempts:
  "\<forall>(now, p, e, r)\<in>set xs. \<not> (Pattern p = k \<and> r = 0 \<and> e = 0) \<Longrightarrow>
   bestTimeOf s k \<noteq> 0 \<Longrightarrow>
   bestTimeOf (recordAttempts xs s) k \<noteq> 0 \<and>
   bestTimeOf (recordAttempts xs s) k \<le>s bestTimeOf s k"
proof (induction xs arbitrary: s)
  case Nil
  then show ?case by simp
next
  case (Cons x xs)
  obtain now p e r where x: "x = (now, p, e, r)" by (cases x) auto
  let ?s = "recordAttempt now p e r s"
  from Cons.prems x have nz: "\<not> (Pattern p = k \<and> r = 0 \<and> e = 0)" by simp
  have a: "bestTimeOf ?s k \<noteq> 0" using nz Cons.prems(2)
    by (auto simp: bestTimeOf_recordAttempt)
  have b: "bestTimeOf ?s k \<le>s bestTimeOf s k"
    using Cons.prems(2) by (auto simp: bestTimeOf_recordAttempt intro: signed.less_imp_le)
  from Cons.prems(1) have "\<forall>(now, p, e, r)\<in>set xs. \<not> (Pattern p = k \<and> r = 0 \<and> e = 0)"
    by simp
  from Cons.IH [OF this a] b show ?case
    unfolding x by (auto intro: signed.order_trans)
qed

lemma best_after_5: "bestTimeOf (recordAttempts [(1, pA, 5, 0)] emptyStats) ''a'' = 5"
  by (simp add: bestTimeOf_recordAttempt pA_def observers_empty word_sless_alt)

text \<open>
  Claim C6, as the code has it.  \<open>recordAttempt\<close> changes the stored best time of a pattern
  string only on a zero-reset attempt of that string, when the stored best is zero (none
  stored) or the elapsed time is strictly less than it, and then stores the elapsed time.
  Across a sequence of recorded attempts in which no zero-reset attempt of the pattern has
  an elapsed time of exactly zero, a best time once stored (non-zero) stays stored and
  never increases.
\<close>

theorem C6_best_time:
  "bestTimeOf (recordAttempt now p e r s) k =
     (if k = Pattern p \<and> r = 0 \<and> (bestTimeOf s k = 0 \<or> e <s bestTimeOf s k) then e
      else bestTimeOf s k) \<and>
   ((\<forall>(now, p, e, r)\<in>set xs. \<not> (Pattern p = k \<and> r = 0 \<and> e = 0)) \<and> bestTimeOf s k \<noteq> 0 \<longrightarrow>
      bestTimeOf (recordAttempts xs s) k \<noteq> 0 \<and>
      bestTimeOf (recordAttempts xs s) k \<le>s bestTimeOf s k)"
  using bestTimeOf_recordAttempt [of now p e r s k] bestTimeOf_recordAttempts [of xs k s]
  by blast

text \<open>
  C6 at a stored best of 5 ns followed by attempts of 7 ns, of 3 ns with one reset and of
  4 ns: the best time ends at 4 ns.
\<close>

theorem C6_best_time_witness:
  "bestTimeOf (recordAttempts [(1, pA, 5, 0)] emptyStats) ''a'' = 5 \<and>
   bestTimeOf (recordAttempts [(2, pA, 7, 0), (3, pA, 3, 1), (4, pA, 4, 0)]
     (recordAttempts [(1, pA, 5, 0)] emptyStats)) ''a'' \<le>s 5 \<and>
   bestTimeOf (recordAttempts [(2, pA, 7, 0), (3, pA, 3, 1), (4, pA, 4, 0)]
     (recordAttempts [(1, pA, 5, 0)] emptyStats)) ''a'' = 4"
proof -
  let ?s = "recordAttempts [(1, pA, 5, 0)] emptyStats"
  let ?xs = "[(2, pA, 7, 0), (3, pA, 3, 1), (4, pA, 4, 0)]
    :: (time \<times> Pattern \<times> duration \<times> goint) list"
  have h: "(\<forall>(now, p, e, r)\<in>set ?xs. \<not> (Pattern p = ''a'' \<and> r = 0 \<and> e = 0)) \<and>
      bestTimeOf ?s ''a'' \<noteq> 0"
    unfolding best_after_5 by simp
  have v: "bestTimeOf (recordAttempts ?xs ?s) ''a'' = 4"
    by (simp add: bestTimeOf_recordAttempt pA_def observers_empty word_sless_alt)
  from C6_best_time [of 0 pA 0 0 ?s "''a''" ?xs] h have
    "bestTimeOf (recordAttempts ?xs ?s) ''a'' \<le>s bestTimeOf ?s ''a''" by blast
  with v best_after_5 show ?thesis by simp
qed

text \<open>
  Claim C6 as stated fails.  After a zero-reset attempt of 5 ns the stored best is 5 ns; a
  zero-reset attempt of 0 ns stores 0, which reads as no best stored; the next zero-reset
  attempt, of 9 ns, stores 9 ns: the best time went from 5 ns to 9 ns.
\<close>

theorem C6_counterexample:
  "bestTimeOf (recordAttempts [(1, pA, 5, 0)] emptyStats) ''a'' = 5 \<and>
   bestTimeOf (recordAttempts [(1, pA, 5, 0), (2, pA, 0, 0)] emptyStats) ''a'' = 0 \<and>
   bestTimeOf (recordAttempts [(1, pA, 5, 0), (2, pA, 0, 0), (3, pA, 9, 0)] emptyStats) ''a'' = 9 \<and>
   (5 :: duration) <s 9"
  by (simp add: bestTimeOf_recordAttempt pA_def observers_empty word_sless_alt)

text \<open>
  Claim C7.  With \<open>resets = 0\<close>, \<open>recordAttempt\<close> adds one to the current streak and, when
  the new current streak exceeds the best streak, stores it as the best streak; with any
  other \<open>resets\<close> it sets the current streak to zero and leaves the best streak.  The best
  streak never decreases.  From empty statistics, attempts with resets 0, 0, 1, 0 give the
  current streaks 1, 2, 0, 1 and the best streak 2.
\<close>

theorem C7_streaks:
  "currentStreakOf (recordAttempt now p e r s) (Pattern p) =
     (if r = 0 then currentStreakOf s (Pattern p) + 1 else 0) \<and>
   bestStreakOf (recordAttempt now p e r s) (Pattern p) =
     (if r = 0 \<and> bestStreakOf s (Pattern p) <s currentStreakOf s (Pattern p) + 1
      then currentStreakOf s (Pattern p) + 1 else bestStreakOf s (Pattern p)) \<and>
   bestStreakOf s (Pattern p) \<le>s bestStreakOf (recordAttempt now p e r s) (Pattern p) \<and>
   map (\<lambda>n. currentStreakOf
          (recordAttempts (take n [(1, pA, 10, 0), (2, pA, 10, 0), (3, pA, 10, 1), (4, pA, 10, 0)])
             emptyStats) ''a'') [1, 2, 3, 4] = [1, 2, 0, 1] \<and>
   bestStreakOf
     (recordAttempts [(1, pA, 10, 0), (2, pA, 10, 0), (3, pA, 10, 1), (4, pA, 10, 0)] emptyStats)
     ''a'' = 2"
proof -
  have 1: "bestStreakOf s (Pattern p) \<le>s bestStreakOf (recordAttempt now p e r s) (Pattern p)"
    by (auto simp: bestStreakOf_recordAttempt intro: signed.less_imp_le)
  have 2: "map (\<lambda>n. currentStreakOf
          (recordAttempts (take n [(1, pA, 10, 0), (2, pA, 10, 0), (3, pA, 10, 1), (4, pA, 10, 0)])
             emptyStats) ''a'') [1, 2, 3, 4] = [1, 2, 0, 1]"
    by (simp add: currentStreakOf_recordAttempt pA_def observers_empty
        numeral_2_eq_2 numeral_3_eq_3)
  have 3: "bestStreakOf
     (recordAttempts [(1, pA, 10, 0), (2, pA, 10, 0), (3, pA, 10, 1), (4, pA, 10, 0)] emptyStats)
     ''a'' = 2"
    by (simp add: bestStreakOf_recordAttempt currentStreakOf_recordAttempt pA_def
        observers_empty word_sless_alt)
  from 1 2 3 show ?thesis
    by (simp add: bestStreakOf_recordAttempt currentStreakOf_recordAttempt)
qed

section \<open>Properties of the match engine\<close>

text \<open>
  Every handler does nothing or what one event does, and the token of the event is never
  empty.
\<close>

lemma runeString_nonempty: "runeString r \<noteq> []"
  by (simp add: runeString_def)

lemma addKey_inactive: "\<not> isActive app \<Longrightarrow> addKey now fin key app = app"
  by (simp add: addKey_def)

lemma TypedRune_event:
  "TypedRune now fin r app = step app (AddKey now fin (runeString r)) \<and>
   isTokenEvent (AddKey now fin (runeString r))"
  by (simp add: TypedRune_def addKey_inactive isTokenEvent_def runeString_nonempty)

lemma MouseDown_event:
  "MouseDown now fin button shift app = app \<or>
   (\<exists>key. MouseDown now fin button shift app = step app (AddKey now fin key) \<and>
      isTokenEvent (AddKey now fin key))"
  by (cases button) (auto simp: MouseDown_def isTokenEvent_def)

lemma TypedKey_event:
  "TypedKey rnd now fin key app = app \<or>
   TypedKey rnd now fin key app = step app (StopSession now) \<or>
   TypedKey rnd now fin key app = step app (StartSession rnd now) \<or>
   (\<exists>name. TypedKey rnd now fin key app = step app (AddKey now fin name) \<and>
      isTokenEvent (AddKey now fin name))"
  by (cases key) (auto simp: TypedKey_def isTokenEvent_def)

lemma finishPattern_fields:
  "inputBuffer (finishPattern fin app) = inputBuffer app"
  "currentPattern (finishPattern fin app) = currentPattern app"
  "isActive (finishPattern fin app) = False"
  by (simp_all add: finishPattern_def Let_def)

lemma finishPattern_perfect_status:
  assumes "isActive app" "resetCount app = 0"
  shows "statusLabel (finishPattern fin app) =
     (if sub fin (startTime app) =
         bestTimeOf (stats (finishPattern fin app)) (Pattern (currentPattern app))
      then StatusNewBest (sub fin (startTime app)) else StatusTime (sub fin (startTime app)))"
proof -
  obtain ps where ps: "PatternStats (recordAttempt fin (currentPattern app)
      (sub fin (startTime app)) 0 (stats app)) (Pattern (currentPattern app)) = Some ps"
    using recordAttempt_row_exists by blast
  then show ?thesis using assms
    by (simp add: finishPattern_def Let_def save_def bestTimeOf_def)
qed

lemma finishPattern_stats:
  assumes "isActive app"
  shows "stats (finishPattern fin app) =
     save fin (recordAttempt fin (currentPattern app) (sub fin (startTime app))
       (resetCount app) (stats app))"
  using assms by (simp add: finishPattern_def Let_def)

text \<open>
  Claim C5, as the code has it.  On a zero-reset completion \<open>finishPattern\<close> shows
  "new best" exactly when the elapsed time equals the best time stored after
  \<open>recordAttempt\<close>, which is exactly when the best time stored before is zero (the code's
  mark of no best stored), or the elapsed time is strictly less than the best stored
  before, or equal to it.  The stored best changes only when it is zero or the elapsed
  time is strictly less than it, and then becomes the elapsed time.
\<close>

theorem C5_new_best:
  assumes "isActive app" and "resetCount app = 0"
    and "k = Pattern (currentPattern app)" and "old = bestTimeOf (stats app) k"
    and "e = sub fin (startTime app)" and "app' = finishPattern fin app"
  shows "statusLabel app' =
           (if e = bestTimeOf (stats app') k then StatusNewBest e else StatusTime e) \<and>
         (statusLabel app' = StatusNewBest e \<longleftrightarrow> old = 0 \<or> e <s old \<or> e = old) \<and>
         bestTimeOf (stats app') k = (if old = 0 \<or> e <s old then e else old)"
proof -
  have b: "bestTimeOf (stats app') k = (if old = 0 \<or> e <s old then e else old)"
    using assms by (simp add: finishPattern_stats bestTimeOf_save bestTimeOf_recordAttempt)
  have s: "statusLabel app' =
           (if e = bestTimeOf (stats app') k then StatusNewBest e else StatusTime e)"
    using assms finishPattern_perfect_status [of app fin] by simp
  show ?thesis unfolding s b by auto
qed

lemma tie_before:
  "isActive (run (initApp [pA] emptyStats) tieTrace) \<and>
   resetCount (run (initApp [pA] emptyStats) tieTrace) = 0 \<and>
   Pattern (currentPattern (run (initApp [pA] emptyStats) tieTrace)) = ''a'' \<and>
   inputBuffer (run (initApp [pA] emptyStats) tieTrace) = [] \<and>
   startTime (run (initApp [pA] emptyStats) tieTrace) = 0 \<and>
   bestTimeOf (stats (run (initApp [pA] emptyStats) tieTrace)) ''a'' = 5"
  by code_simp

lemma tie_accept:
  "step (run (initApp [pA] emptyStats) tieTrace) (AddKey 700 703 ''a'') =
     finishPattern 703
       ((run (initApp [pA] emptyStats) tieTrace)\<lparr>startTime := 700, inputBuffer := [''a'']\<rparr>)"
  using tie_before by (simp add: addKey_def Let_def)

text \<open>
  C5 in the second session of \<open>tieTrace\<close>, where a best of 5 ns is stored: the key \<open>a\<close>
  that completes the pattern in 3 ns hands \<open>finishPattern\<close> an active state with no
  resets, which shows "new best" and stores 3 ns.
\<close>

theorem C5_new_best_witness:
  "step (run (initApp [pA] emptyStats) tieTrace) (AddKey 700 703 ''a'') =
     finishPattern 703
       ((run (initApp [pA] emptyStats) tieTrace)\<lparr>startTime := 700, inputBuffer := [''a'']\<rparr>) \<and>
   isActive ((run (initApp [pA] emptyStats) tieTrace)\<lparr>startTime := 700, inputBuffer := [''a'']\<rparr>) \<and>
   resetCount ((run (initApp [pA] emptyStats) tieTrace)\<lparr>startTime := 700, inputBuffer := [''a'']\<rparr>) = 0 \<and>
   bestTimeOf (stats (run (initApp [pA] emptyStats) tieTrace)) ''a'' = 5 \<and>
   statusLabel (step (run (initApp [pA] emptyStats) tieTrace) (AddKey 700 703 ''a'')) = StatusNewBest 3 \<and>
   bestTimeOf (stats (step (run (initApp [pA] emptyStats) tieTrace) (AddKey 700 703 ''a''))) ''a'' = 3"
proof -
  let ?app = "(run (initApp [pA] emptyStats) tieTrace)\<lparr>startTime := 700, inputBuffer := [''a'']\<rparr>"
  have h: "isActive ?app \<and> resetCount ?app = 0 \<and> Pattern (currentPattern ?app) = ''a'' \<and>
      bestTimeOf (stats ?app) ''a'' = 5"
    using tie_before by simp
  have e: "sub 703 (startTime ?app) = 3" by (simp add: sub_def)
  have l: "(3 :: duration) <s 5" by (simp add: word_sless_alt)
  from C5_new_best [of ?app "''a''" 5 3 703 "finishPattern 703 ?app"] h e l
  have "statusLabel (finishPattern 703 ?app) = StatusNewBest 3 \<and>
      bestTimeOf (stats (finishPattern 703 ?app)) ''a'' = 3"
    by simp
  with h tie_accept tie_before show ?thesis by simp
qed

text \<open>
  Claim C5 as stated fails.  In the second session of \<open>tieTrace\<close> a best of 5 ns is
  stored; the key \<open>a\<close> completes the pattern in 5 ns again, which is not strictly lower,
  and the status is "new best" (the stored best stays 5 ns).  In the second session of
  \<open>zeroTrace\<close> a perfect completion in 0 ns is on record, so that the stored best is zero;
  a completion in 9 ns is "new best" and the stored best becomes 9 ns.
\<close>

theorem C5_counterexample:
  "bestTimeOf (stats (run (initApp [pA] emptyStats) tieTrace)) ''a'' = 5 \<and>
   statusLabel (step (run (initApp [pA] emptyStats) tieTrace) tieKey) = StatusNewBest 5 \<and>
   bestTimeOf (stats (step (run (initApp [pA] emptyStats) tieTrace) tieKey)) ''a'' = 5 \<and>
   map_option PerfectCount (PatternStats (stats (run (initApp [pA] emptyStats) zeroTrace)) ''a'') = Some 1 \<and>
   map_option TotalTime (PatternStats (stats (run (initApp [pA] emptyStats) zeroTrace)) ''a'') = Some 0 \<and>
   bestTimeOf (stats (run (initApp [pA] emptyStats) zeroTrace)) ''a'' = 0 \<and>
   statusLabel (step (run (initApp [pA] emptyStats) zeroTrace) (AddKey 700 709 ''a'')) = StatusNewBest 9 \<and>
   bestTimeOf (stats (step (run (initApp [pA] emptyStats) zeroTrace) (AddKey 700 709 ''a''))) ''a'' = 9"
  by code_simp

lemma prefixInv_initApp: "prefixInv (initApp pats st)"
  by (simp add: prefixInv_def initApp_def)

lemma prefixInv_nextPattern: "prefixInv app \<Longrightarrow> prefixInv (nextPattern now app)"
  by (auto simp: prefixInv_def nextPattern_def sessionComplete_def split: list.split)

lemma prefixInv_startSession: "prefixInv app \<Longrightarrow> prefixInv (startSession rnd now app)"
  unfolding startSession_def
  by (rule prefixInv_nextPattern) (simp add: prefixInv_def shufflePatterns_def)

lemma prefixInv_stopSession: "prefixInv app \<Longrightarrow> prefixInv (stopSession now app)"
  by (simp add: prefixInv_def stopSession_def)

lemma prefixInv_pending: "prefixInv (app\<lparr>pending := n\<rparr>) = prefixInv app"
  by (simp add: prefixInv_def)

lemma prefixInv_advance: "prefixInv app \<Longrightarrow> prefixInv (advance now app)"
  by (simp add: advance_def Let_def prefixInv_nextPattern prefixInv_pending)

lemma prefixInv_addKey: "prefixInv app \<Longrightarrow> prefixInv (addKey now fin key app)"
  by (auto simp: prefixInv_def addKey_def Let_def finishPattern_fields prefix_def)

lemma prefixInv_step: "prefixInv app \<Longrightarrow> prefixInv (step app ev)"
  by (cases ev)
    (simp_all add: prefixInv_addKey prefixInv_startSession prefixInv_stopSession prefixInv_advance)

lemma prefixInv_run: "prefixInv app \<Longrightarrow> prefixInv (run app evs)"
  unfolding run_def
  by (induction evs arbitrary: app) (simp_all add: prefixInv_step)

lemma addKey_rejects:
  assumes "isActive app"
    and "\<not> prefix (concat (inputBuffer app @ [key])) (Pattern (currentPattern app))"
  shows "inputBuffer (addKey now fin key app) = []"
  using assms by (simp add: addKey_def Let_def)

text \<open>
  Claim C1, as the code has it.  In every state that the events of the application reach
  from its start, the joined typed-so-far buffer is a prefix of the active pattern's
  string, and a strict prefix while the pattern is active and its string is not empty; a
  token whose acceptance would break this is not appended: the buffer is empty after it.
\<close>

theorem C1_prefix_invariant:
  "prefix (concat (inputBuffer (run (initApp pats st) evs)))
     (Pattern (currentPattern (run (initApp pats st) evs))) \<and>
   (isActive (run (initApp pats st) evs) \<and>
      Pattern (currentPattern (run (initApp pats st) evs)) \<noteq> [] \<longrightarrow>
    strict_prefix (concat (inputBuffer (run (initApp pats st) evs)))
      (Pattern (currentPattern (run (initApp pats st) evs)))) \<and>
   (isActive (run (initApp pats st) evs) \<and>
      \<not> prefix (concat (inputBuffer (run (initApp pats st) evs) @ [key]))
          (Pattern (currentPattern (run (initApp pats st) evs))) \<longrightarrow>
    inputBuffer (addKey now fin key (run (initApp pats st) evs)) = [])"
  using prefixInv_run [OF prefixInv_initApp, of pats st evs]
    addKey_rejects [of "run (initApp pats st) evs" key now fin]
  by (auto simp: prefixInv_def strict_prefix_def)

lemma fkey_state:
  "isActive (run (initApp [pFKeys] emptyStats) fKeyTrace) \<and>
   inputBuffer (run (initApp [pFKeys] emptyStats) fKeyTrace) = [''F'', ''1''] \<and>
   Pattern (currentPattern (run (initApp [pFKeys] emptyStats) fKeyTrace)) = ''F1aF2aF3a''"
  by code_simp

lemma tokenSequence_FKeys: "tokenSequence ''F1aF2aF3a'' = [''F1'', ''a'', ''F2'', ''a'', ''F3'', ''a'']"
  by (simp add: matchToken_def tokens_def)

text \<open>
  C1 in the session of the function keys after the characters \<open>F\<close> and \<open>1\<close>: the joined
  buffer \<open>"F1"\<close> is a strict prefix of \<open>"F1aF2aF3a"\<close>, and the key \<open>b\<close> empties the buffer.
\<close>

theorem C1_prefix_invariant_witness:
  "isActive (run (initApp [pFKeys] emptyStats) fKeyTrace) \<and>
   inputBuffer (run (initApp [pFKeys] emptyStats) fKeyTrace) = [''F'', ''1''] \<and>
   Pattern (currentPattern (run (initApp [pFKeys] emptyStats) fKeyTrace)) = ''F1aF2aF3a'' \<and>
   strict_prefix (concat (inputBuffer (run (initApp [pFKeys] emptyStats) fKeyTrace)))
     (Pattern (currentPattern (run (initApp [pFKeys] emptyStats) fKeyTrace))) \<and>
   inputBuffer (addKey 30 30 ''b'' (run (initApp [pFKeys] emptyStats) fKeyTrace)) = []"
proof -
  let ?s = "run (initApp [pFKeys] emptyStats) fKeyTrace"
  have h: "Pattern (currentPattern ?s) \<noteq> [] \<and>
      \<not> prefix (concat (inputBuffer ?s @ [''b''])) (Pattern (currentPattern ?s))"
    using fkey_state by simp
  from C1_prefix_invariant [of "[pFKeys]" emptyStats fKeyTrace "''b''" 30 30] fkey_state h
  show ?thesis by blast
qed

text \<open>
  Claim C1 as stated fails.  After the characters \<open>F\<close> and \<open>1\<close> the buffer holds the two
  tokens \<open>F\<close> and \<open>1\<close>, which is no prefix of the token sequence \<open>F1, a, F2, a, F3, a\<close> of
  the active pattern.  With the pattern of the line \<open>Name|\<close> active, the empty buffer is
  the whole pattern string, not a strict prefix of it.
\<close>

theorem C1_counterexample:
  "isActive (run (initApp [pFKeys] emptyStats) fKeyTrace) \<and>
   \<not> prefix (inputBuffer (run (initApp [pFKeys] emptyStats) fKeyTrace))
       (tokenSequence (Pattern (currentPattern (run (initApp [pFKeys] emptyStats) fKeyTrace)))) \<and>
   isActive (run (initApp [pEmpty] emptyStats) [StartSession (\<lambda>_. 0) 1]) \<and>
   \<not> strict_prefix (concat (inputBuffer (run (initApp [pEmpty] emptyStats) [StartSession (\<lambda>_. 0) 1])))
       (Pattern (currentPattern (run (initApp [pEmpty] emptyStats) [StartSession (\<lambda>_. 0) 1])))"
proof -
  have e: "isActive (run (initApp [pEmpty] emptyStats) [StartSession (\<lambda>_. 0) 1]) \<and>
     inputBuffer (run (initApp [pEmpty] emptyStats) [StartSession (\<lambda>_. 0) 1]) = [] \<and>
     Pattern (currentPattern (run (initApp [pEmpty] emptyStats) [StartSession (\<lambda>_. 0) 1])) = []"
    by code_simp
  have t: "\<not> prefix [''F'', ''1''] (tokenSequence ''F1aF2aF3a'')"
    unfolding tokenSequence_FKeys by simp
  show ?thesis using fkey_state e t by (simp del: tokenSequence.simps)
qed

lemma mistakesOf_recordMistake:
  "mistakesOf (recordMistake now p pos ex ac s) k =
     (if k = Pattern p then
        (let ms = mistakesOf s k @ [\<lparr>Position = pos, Expected = ex, Actual = ac, Timestamp = now\<rparr>]
         in if 100 < length ms then drop (length ms - 100) ms else ms)
      else mistakesOf s k)"
  by (simp add: mistakesOf_def recordMistake_def getPatternStats_def newPatternStats_def
      Let_def split: option.split)

lemma mistakesOf_save: "mistakesOf (save now s) k = mistakesOf s k"
  by (simp add: mistakesOf_def save_def)

lemma last_recordMistake:
  "last (mistakesOf (recordMistake now p pos ex ac s) (Pattern p)) =
     \<lparr>Position = pos, Expected = ex, Actual = ac, Timestamp = now\<rparr>"
  by (simp add: mistakesOf_recordMistake Let_def)

lemma addKey_reset:
  assumes "isActive app"
    and "\<not> prefix (concat (inputBuffer app @ [t])) (Pattern (currentPattern app))"
    and "inputBuffer app \<noteq> []"
  shows "addKey now fin t app =
     app\<lparr>stats := save now (recordMistake now (currentPattern app)
                (int (length (concat (inputBuffer app))))
                (getExpectedKey (Pattern (currentPattern app))
                   (int (length (concat (inputBuffer app))))) t (stats app)),
         resetCount := resetCount app + 1, inputBuffer := [],
         statusLabel := StatusExpected (formatForDisplay
                   (getExpectedKey (Pattern (currentPattern app))
                      (int (length (concat (inputBuffer app))))))\<rparr>"
  using assms by (simp add: addKey_def Let_def)

lemma addKey_ignore:
  assumes "isActive app"
    and "\<not> prefix (concat (inputBuffer app @ [t])) (Pattern (currentPattern app))"
    and "inputBuffer app = []"
  shows "addKey now fin t app = app"
  using assms by (simp add: addKey_def Let_def)

lemma mistakesOf_recordAttempt: "mistakesOf (recordAttempt now p e r s) k = mistakesOf s k"
  by (simp add: mistakesOf_def recordAttempt_def getPatternStats_def newPatternStats_def
      Let_def split: option.split)

lemma finishPattern_keeps:
  "resetCount (finishPattern fin app) = resetCount app \<and>
   mistakesOf (stats (finishPattern fin app)) k = mistakesOf (stats app) k"
  by (simp add: finishPattern_def Let_def mistakesOf_save mistakesOf_recordAttempt)

lemma addKey_accept:
  assumes "isActive app"
    and "prefix (concat (inputBuffer app @ [t])) (Pattern (currentPattern app))"
  shows "inputBuffer (addKey now fin t app) = inputBuffer app @ [t] \<and>
         resetCount (addKey now fin t app) = resetCount app \<and>
         mistakesOf (stats (addKey now fin t app)) k = mistakesOf (stats app) k"
  using assms
  by (simp add: addKey_def Let_def finishPattern_fields finishPattern_keeps)

lemma prefix_concat: "prefix xs ys \<Longrightarrow> prefix (concat xs) (concat ys)"
  by (auto simp: prefix_def)

lemma token_prefix_string_prefix:
  "prefix candidate (tokenSequence k) \<Longrightarrow> prefix (concat candidate) k"
  using prefix_concat [of candidate "tokenSequence k"] by (simp add: concat_tokenSequence)

text \<open>
  Claim C2, as the code has it.  A token \<open>t\<close> is submitted while a pattern is active.  If
  the joined buffer with \<open>t\<close> appended is a prefix of the pattern string, \<open>t\<close> is appended
  to the buffer and no mistake or reset is recorded.  If it is not, then the buffer with
  \<open>t\<close> appended is no prefix of the pattern's token sequence either, and: with an empty
  buffer the state does not change; otherwise the mistake with the position, the token
  that \<open>getExpectedKey\<close> finds at that position and the actual token \<open>t\<close> is appended to
  the mistakes of the pattern (of which the last 100 are kept), the reset counter goes up
  by one, the buffer is emptied and the start time stays.  For the pattern \<open>1aLC\<close> and the
  inputs \<open>1\<close>, \<open>a\<close>, \<open>RC\<close> the mistake has position 2, expected \<open>LC\<close>, actual \<open>RC\<close>, and the
  reset counter is 1.
\<close>

theorem C2_mismatch:
  assumes "isActive app"
    and "k = Pattern (currentPattern app)"
    and "candidate = inputBuffer app @ [t]"
    and "position = int (length (concat (inputBuffer app)))"
    and "m = \<lparr>Position = position, Expected = getExpectedKey k position, Actual = t,
              Timestamp = now\<rparr>"
    and "app' = addKey now fin t app"
  shows "(if prefix (concat candidate) k
          then inputBuffer app' = candidate \<and> resetCount app' = resetCount app \<and>
               mistakesOf (stats app') k = mistakesOf (stats app) k
          else \<not> prefix candidate (tokenSequence k) \<and>
               (if inputBuffer app = [] then app' = app
                else mistakesOf (stats app') k =
                       (let ms = mistakesOf (stats app) k @ [m]
                        in if 100 < length ms then drop (length ms - 100) ms else ms) \<and>
                     last (mistakesOf (stats app') k) = m \<and>
                     resetCount app' = resetCount app + 1 \<and>
                     inputBuffer app' = [] \<and>
                     startTime app' = startTime app \<and>
                     isActive app' \<and> currentPattern app' = currentPattern app)) \<and>
         mistakesOf (stats (run (initApp [p1aLC] emptyStats) (resetTrace @ [AddKey 30 30 ''RC'']))) ''1aLC'' =
           [\<lparr>Position = 2, Expected = ''LC'', Actual = ''RC'', Timestamp = 30\<rparr>] \<and>
         resetCount (run (initApp [p1aLC] emptyStats) (resetTrace @ [AddKey 30 30 ''RC''])) = 1 \<and>
         inputBuffer (run (initApp [p1aLC] emptyStats) (resetTrace @ [AddKey 30 30 ''RC''])) = []"
proof -
  have c: "mistakesOf (stats (run (initApp [p1aLC] emptyStats) (resetTrace @ [AddKey 30 30 ''RC'']))) ''1aLC'' =
           [\<lparr>Position = 2, Expected = ''LC'', Actual = ''RC'', Timestamp = 30\<rparr>] \<and>
         resetCount (run (initApp [p1aLC] emptyStats) (resetTrace @ [AddKey 30 30 ''RC''])) = 1 \<and>
         inputBuffer (run (initApp [p1aLC] emptyStats) (resetTrace @ [AddKey 30 30 ''RC''])) = []"
    by code_simp
  show ?thesis
  proof (cases "prefix (concat candidate) k")
    case True
    with assms c addKey_accept [of app t now fin k] show ?thesis by simp
  next
    case mismatch: False
    then have tok: "\<not> prefix candidate (tokenSequence k)"
      using token_prefix_string_prefix by blast
    show ?thesis
    proof (cases "inputBuffer app = []")
      case True
      with assms c mismatch tok addKey_ignore [of app t now fin] show ?thesis by simp
    next
      case False
      with assms c mismatch tok addKey_reset [of app t now fin] show ?thesis
        by (simp add: mistakesOf_save mistakesOf_recordMistake Let_def)
    qed
  qed
qed

lemma reset_before:
  "isActive (run (initApp [p1aLC] emptyStats) resetTrace) \<and>
   inputBuffer (run (initApp [p1aLC] emptyStats) resetTrace) = [''1'', ''a''] \<and>
   currentPattern (run (initApp [p1aLC] emptyStats) resetTrace) = p1aLC \<and>
   mistakesOf (stats (run (initApp [p1aLC] emptyStats) resetTrace)) ''1aLC'' = [] \<and>
   resetCount (run (initApp [p1aLC] emptyStats) resetTrace) = 0 \<and>
   startTime (run (initApp [p1aLC] emptyStats) resetTrace) = 10"
  by code_simp

lemma getExpectedKey_1aLC: "getExpectedKey ''1aLC'' 2 = ''LC''"
  by (simp add: getExpectedKey_def getExpectedKeyFrom.simps matchToken_def tokens_def)

text \<open>
  C2 in the session of \<open>1aLC\<close>: after \<open>1\<close> and \<open>a\<close> the input \<open>RC\<close> is a reset, and right
  after the start the input \<open>x\<close> changes nothing; in the session of the function keys the
  input \<open>a\<close> after \<open>F\<close> and \<open>1\<close> is accepted.
\<close>

theorem C2_mismatch_witness:
  "isActive (run (initApp [p1aLC] emptyStats) resetTrace) \<and>
   \<not> prefix (concat (inputBuffer (run (initApp [p1aLC] emptyStats) resetTrace) @ [''RC'']))
       (Pattern (currentPattern (run (initApp [p1aLC] emptyStats) resetTrace))) \<and>
   mistakesOf (stats (addKey 30 30 ''RC'' (run (initApp [p1aLC] emptyStats) resetTrace))) ''1aLC'' =
     [\<lparr>Position = 2, Expected = ''LC'', Actual = ''RC'', Timestamp = 30\<rparr>] \<and>
   resetCount (addKey 30 30 ''RC'' (run (initApp [p1aLC] emptyStats) resetTrace)) = 1 \<and>
   inputBuffer (addKey 30 30 ''RC'' (run (initApp [p1aLC] emptyStats) resetTrace)) = [] \<and>
   startTime (addKey 30 30 ''RC'' (run (initApp [p1aLC] emptyStats) resetTrace)) = 10 \<and>
   addKey 5 5 ''x'' (run (initApp [p1aLC] emptyStats) [StartSession (\<lambda>_. 0) 1]) =
     run (initApp [p1aLC] emptyStats) [StartSession (\<lambda>_. 0) 1] \<and>
   prefix (concat (inputBuffer (run (initApp [pFKeys] emptyStats) fKeyTrace) @ [''a'']))
       (Pattern (currentPattern (run (initApp [pFKeys] emptyStats) fKeyTrace))) \<and>
   inputBuffer (addKey 30 30 ''a'' (run (initApp [pFKeys] emptyStats) fKeyTrace)) = [''F'', ''1'', ''a''] \<and>
   resetCount (addKey 30 30 ''a'' (run (initApp [pFKeys] emptyStats) fKeyTrace)) =
     resetCount (run (initApp [pFKeys] emptyStats) fKeyTrace)"
proof -
  let ?r = "run (initApp [p1aLC] emptyStats) resetTrace"
  let ?init = "run (initApp [p1aLC] emptyStats) [StartSession (\<lambda>_. 0) 1]"
  let ?f = "run (initApp [pFKeys] emptyStats) fKeyTrace"
  have h: "\<not> prefix (concat (inputBuffer ?r @ [''RC''])) (Pattern (currentPattern ?r))"
    using reset_before by (simp add: p1aLC_def)
  have i0: "isActive ?init \<and> inputBuffer ?init = [] \<and> currentPattern ?init = p1aLC"
    by code_simp
  then have h0: "\<not> prefix (concat (inputBuffer ?init @ [''x''])) (Pattern (currentPattern ?init))"
    by (simp add: p1aLC_def)
  have hf: "prefix (concat (inputBuffer ?f @ [''a''])) (Pattern (currentPattern ?f))"
    using fkey_state by simp
  have a: "mistakesOf (stats (addKey 30 30 ''RC'' ?r)) ''1aLC'' =
     [\<lparr>Position = 2, Expected = ''LC'', Actual = ''RC'', Timestamp = 30\<rparr>] \<and>
     resetCount (addKey 30 30 ''RC'' ?r) = 1 \<and> inputBuffer (addKey 30 30 ''RC'' ?r) = [] \<and>
     startTime (addKey 30 30 ''RC'' ?r) = 10"
    using C2_mismatch [OF conjunct1 [OF reset_before] refl refl refl refl refl, of "''RC''" 30 30]
      reset_before getExpectedKey_1aLC h
    by (simp add: p1aLC_def)
  have b: "addKey 5 5 ''x'' ?init = ?init"
    using C2_mismatch [OF conjunct1 [OF i0] refl refl refl refl refl, of "''x''" 5 5] i0 h0
    by simp
  have d: "inputBuffer (addKey 30 30 ''a'' ?f) = [''F'', ''1'', ''a''] \<and>
     resetCount (addKey 30 30 ''a'' ?f) = resetCount ?f"
    using C2_mismatch [OF conjunct1 [OF fkey_state] refl refl refl refl refl, of "''a''" 30 30]
      fkey_state hf
    by simp
  from reset_before h a b hf d show ?thesis by blast
qed

text \<open>
  Claim C2 as stated fails.  For the pattern \<open>F1aF2aF3a\<close>, whose first token is \<open>F1\<close>, the
  character \<open>F\<close> on an empty buffer is no prefix of the token sequence, and it is not
  ignored: it enters the buffer and starts the timer.  The character \<open>1\<close> after it is no
  prefix of the token sequence either, with a non-empty buffer, and no reset occurs: no
  mistake is recorded, the reset counter stays 0 and the buffer grows.
\<close>

theorem C2_counterexample:
  "isActive (run (initApp [pFKeys] emptyStats) [StartSession (\<lambda>_. 0) 1]) \<and>
   inputBuffer (run (initApp [pFKeys] emptyStats) [StartSession (\<lambda>_. 0) 1]) = [] \<and>
   startTime (run (initApp [pFKeys] emptyStats) [StartSession (\<lambda>_. 0) 1]) = 0 \<and>
   \<not> prefix ([] @ [''F'']) (tokenSequence ''F1aF2aF3a'') \<and>
   inputBuffer (addKey 10 10 ''F'' (run (initApp [pFKeys] emptyStats) [StartSession (\<lambda>_. 0) 1])) = [''F''] \<and>
   startTime (addKey 10 10 ''F'' (run (initApp [pFKeys] emptyStats) [StartSession (\<lambda>_. 0) 1])) = 10 \<and>
   isActive (run (initApp [pFKeys] emptyStats) [StartSession (\<lambda>_. 0) 1, AddKey 10 10 ''F'']) \<and>
   inputBuffer (run (initApp [pFKeys] emptyStats) [StartSession (\<lambda>_. 0) 1, AddKey 10 10 ''F'']) = [''F''] \<and>
   \<not> prefix ([''F''] @ [''1'']) (tokenSequence ''F1aF2aF3a'') \<and>
   inputBuffer (addKey 20 20 ''1'' (run (initApp [pFKeys] emptyStats) [StartSession (\<lambda>_. 0) 1, AddKey 10 10 ''F''])) = [''F'', ''1''] \<and>
   resetCount (addKey 20 20 ''1'' (run (initApp [pFKeys] emptyStats) [StartSession (\<lambda>_. 0) 1, AddKey 10 10 ''F''])) = 0 \<and>
   mistakesOf (stats (addKey 20 20 ''1'' (run (initApp [pFKeys] emptyStats) [StartSession (\<lambda>_. 0) 1, AddKey 10 10 ''F'']))) ''F1aF2aF3a'' = []"
proof -
  have t: "\<not> prefix ([] @ [''F'']) (tokenSequence ''F1aF2aF3a'') \<and>
      \<not> prefix ([''F''] @ [''1'']) (tokenSequence ''F1aF2aF3a'')"
    unfolding tokenSequence_FKeys by simp
  have r: "isActive (run (initApp [pFKeys] emptyStats) [StartSession (\<lambda>_. 0) 1]) \<and>
   inputBuffer (run (initApp [pFKeys] emptyStats) [StartSession (\<lambda>_. 0) 1]) = [] \<and>
   startTime (run (initApp [pFKeys] emptyStats) [StartSession (\<lambda>_. 0) 1]) = 0 \<and>
   inputBuffer (addKey 10 10 ''F'' (run (initApp [pFKeys] emptyStats) [StartSession (\<lambda>_. 0) 1])) = [''F''] \<and>
   startTime (addKey 10 10 ''F'' (run (initApp [pFKeys] emptyStats) [StartSession (\<lambda>_. 0) 1])) = 10 \<and>
   isActive (run (initApp [pFKeys] emptyStats) [StartSession (\<lambda>_. 0) 1, AddKey 10 10 ''F'']) \<and>
   inputBuffer (run (initApp [pFKeys] emptyStats) [StartSession (\<lambda>_. 0) 1, AddKey 10 10 ''F'']) = [''F''] \<and>
   inputBuffer (addKey 20 20 ''1'' (run (initApp [pFKeys] emptyStats) [StartSession (\<lambda>_. 0) 1, AddKey 10 10 ''F''])) = [''F'', ''1''] \<and>
   resetCount (addKey 20 20 ''1'' (run (initApp [pFKeys] emptyStats) [StartSession (\<lambda>_. 0) 1, AddKey 10 10 ''F''])) = 0 \<and>
   mistakesOf (stats (addKey 20 20 ''1'' (run (initApp [pFKeys] emptyStats) [StartSession (\<lambda>_. 0) 1, AddKey 10 10 ''F'']))) ''F1aF2aF3a'' = []"
    by code_simp
  from t r show ?thesis by (simp del: tokenSequence.simps)
qed

lemma concat_singletons: "\<forall>x\<in>set xs. length x = 1 \<Longrightarrow> length (concat xs) = length xs"
  by (induction xs) auto

text \<open>
  Claim C3, as the code has it.  On every reset the recorded position is the length in
  bytes of the joined candidate minus the length of the rejected token, that is the length
  of the joined buffer.  It is the number of tokens of the candidate minus 1 when every
  token in the buffer is one byte long.
\<close>

theorem C3_position:
  assumes "isActive app"
    and "\<not> prefix (concat (inputBuffer app @ [t])) (Pattern (currentPattern app))"
    and "inputBuffer app \<noteq> []"
    and "app' = addKey now fin t app"
  shows "Position (last (mistakesOf (stats app') (Pattern (currentPattern app)))) =
           int (length (concat (inputBuffer app @ [t]))) - int (length t) \<and>
         Position (last (mistakesOf (stats app') (Pattern (currentPattern app)))) =
           int (length (concat (inputBuffer app))) \<and>
         ((\<forall>x\<in>set (inputBuffer app). length x = 1) \<longrightarrow>
           Position (last (mistakesOf (stats app') (Pattern (currentPattern app)))) =
             int (length (inputBuffer app @ [t])) - 1)"
  using assms addKey_reset [of app t now fin] concat_singletons [of "inputBuffer app"]
  by (simp add: mistakesOf_save last_recordMistake)

lemma click_before:
  "isActive (run (initApp [pClicks] emptyStats) clickTrace) \<and>
   inputBuffer (run (initApp [pClicks] emptyStats) clickTrace) = [''LC''] \<and>
   currentPattern (run (initApp [pClicks] emptyStats) clickTrace) = pClicks"
  by code_simp

text \<open>
  Claim C3 as stated fails.  For the pattern \<open>LCaRCa\<close>, after a left click the right
  click is a reset and its mistake has position 2; the candidate has two tokens (2 - 1 is
  1) and four bytes (4 - 1 is 3).
\<close>

theorem C3_counterexample:
  "isActive (run (initApp [pClicks] emptyStats) clickTrace) \<and>
   inputBuffer (run (initApp [pClicks] emptyStats) clickTrace) = [''LC''] \<and>
   mistakesOf (stats (addKey 20 20 ''RC'' (run (initApp [pClicks] emptyStats) clickTrace))) ''LCaRCa'' =
     [\<lparr>Position = 2, Expected = ''a'', Actual = ''RC'', Timestamp = 20\<rparr>] \<and>
   int (length ([''LC''] @ [''RC''])) - 1 = 1 \<and>
   int (length (concat ([''LC''] @ [''RC'']))) - 1 = 3"
proof -
  have "mistakesOf (stats (addKey 20 20 ''RC'' (run (initApp [pClicks] emptyStats) clickTrace))) ''LCaRCa'' =
     [\<lparr>Position = 2, Expected = ''a'', Actual = ''RC'', Timestamp = 20\<rparr>]"
    by code_simp
  with click_before show ?thesis by simp
qed

text \<open>C3 at the reset of the clicks and at the reset of \<open>1aLC\<close>: position 2 in both.\<close>

theorem C3_position_witness:
  "isActive (run (initApp [pClicks] emptyStats) clickTrace) \<and>
   inputBuffer (run (initApp [pClicks] emptyStats) clickTrace) = [''LC''] \<and>
   Position (last (mistakesOf
      (stats (addKey 20 20 ''RC'' (run (initApp [pClicks] emptyStats) clickTrace))) ''LCaRCa'')) = 2 \<and>
   isActive (run (initApp [p1aLC] emptyStats) resetTrace) \<and>
   inputBuffer (run (initApp [p1aLC] emptyStats) resetTrace) = [''1'', ''a''] \<and>
   Position (last (mistakesOf
      (stats (addKey 30 30 ''RC'' (run (initApp [p1aLC] emptyStats) resetTrace))) ''1aLC'')) = 2"
proof -
  let ?c = "run (initApp [pClicks] emptyStats) clickTrace"
  let ?r = "run (initApp [p1aLC] emptyStats) resetTrace"
  have hc: "\<not> prefix (concat (inputBuffer ?c @ [''RC''])) (Pattern (currentPattern ?c)) \<and>
      inputBuffer ?c \<noteq> []"
    using click_before by (simp add: pClicks_def)
  have hr: "\<not> prefix (concat (inputBuffer ?r @ [''RC''])) (Pattern (currentPattern ?r)) \<and>
      inputBuffer ?r \<noteq> [] \<and> (\<forall>x\<in>set (inputBuffer ?r). length x = 1)"
    using reset_before by (simp add: p1aLC_def)
  have a: "Position (last (mistakesOf (stats (addKey 20 20 ''RC'' ?c)) ''LCaRCa'')) = 2"
    using C3_position [OF conjunct1 [OF click_before] conjunct1 [OF hc] conjunct2 [OF hc] refl,
        of 20 20] click_before
    by (simp add: pClicks_def)
  have b: "Position (last (mistakesOf (stats (addKey 30 30 ''RC'' ?r)) ''1aLC'')) = 2"
    using C3_position [OF conjunct1 [OF reset_before] conjunct1 [OF hr] conjunct1 [OF conjunct2 [OF hr]] refl,
        of 30 30] reset_before hr
    by (simp add: p1aLC_def)
  from click_before reset_before a b show ?thesis by blast
qed

lemma addKey_empty_pattern:
  assumes "isActive app" "Pattern (currentPattern app) = []" "inputBuffer app = []" "key \<noteq> []"
  shows "addKey now fin key app = app"
  using assms by (simp add: addKey_def Let_def)

lemma advance_no_pending: "pending app = 0 \<Longrightarrow> advance now app = app"
  by (simp add: advance_def)

lemma run_fixed:
  assumes "\<forall>ev\<in>set evs. step app ev = app"
  shows "run app evs = app"
  using assms unfolding run_def by (induction evs) simp_all

text \<open>
  When \<open>nextPattern\<close> makes a pattern with an empty string active (the line \<open>Name|\<close>
  loads one), every sequence of token submissions leaves the state as it is: the buffer
  stays empty, no mistake and no reset is recorded, the pattern stays active (it is never
  completed) and the session stays in progress.  The same holds when deferred calls are
  delivered in between, if none was pending when the pattern became active.
\<close>

lemma empty_pattern_ignores_tokens:
  assumes "inSession app" and "patternQueue app = p # q" and "Pattern p = []"
    and "app' = nextPattern t app"
  shows "isActive app' \<and> inSession app' \<and> currentPattern app' = p \<and> inputBuffer app' = [] \<and>
         resetCount app' = 0 \<and> stats app' = stats app \<and>
         ((\<forall>ev\<in>set evs. isTokenEvent ev) \<longrightarrow> run app' evs = app') \<and>
         (pending app = 0 \<and> (\<forall>ev\<in>set evs. isTokenEvent ev \<or> isAdvance ev) \<longrightarrow>
            run app' evs = app')"
proof -
  have f: "isActive app' \<and> inSession app' \<and> currentPattern app' = p \<and> inputBuffer app' = [] \<and>
         resetCount app' = 0 \<and> stats app' = stats app \<and> pending app' = pending app"
    using assms by (simp add: nextPattern_def)
  have tok: "step app' ev = app'" if "isTokenEvent ev" for ev
    using that f assms(3) addKey_empty_pattern [of app']
    by (cases ev) (simp_all add: isTokenEvent_def)
  have adv: "step app' ev = app'" if "isAdvance ev" "pending app = 0" for ev
    using that f advance_no_pending [of app']
    by (cases ev) (simp_all add: isAdvance_def)
  have 1: "(\<forall>ev\<in>set evs. isTokenEvent ev) \<longrightarrow> run app' evs = app'"
    using tok run_fixed [of evs app'] by blast
  have 2: "pending app = 0 \<and> (\<forall>ev\<in>set evs. isTokenEvent ev \<or> isAdvance ev) \<longrightarrow>
            run app' evs = app'"
    using tok adv run_fixed [of evs app'] by blast
  from f 1 2 show ?thesis by blast
qed

text \<open>
  In the session of the one pattern of the line \<open>Name|\<close>, a character, a click, a
  deferred call and a space leave the state that \<open>startSession\<close> produced.
\<close>

lemma empty_pattern_session:
  "startSession (\<lambda>_. 0) 1 (initApp [pEmpty] emptyStats) = nextPattern 1 emptyStart \<and>
   inSession emptyStart \<and> patternQueue emptyStart = [pEmpty] \<and> Pattern pEmpty = [] \<and>
   pending emptyStart = 0 \<and>
   isActive (nextPattern 1 emptyStart) \<and>
   run (nextPattern 1 emptyStart) [AddKey 2 2 ''a'', AddKey 3 3 ''LC'', Advance 4, AddKey 5 5 '' '']
     = nextPattern 1 emptyStart"
proof -
  have h: "inSession emptyStart \<and> patternQueue emptyStart = [pEmpty] \<and> Pattern pEmpty = [] \<and>
      pending emptyStart = 0"
    by (simp add: emptyStart_def shufflePatterns_def initApp_def pEmpty_def)
  have e: "\<forall>ev\<in>set [AddKey 2 2 ''a'', AddKey 3 3 ''LC'', Advance 4, AddKey 5 5 '' ''].
      isTokenEvent ev \<or> isAdvance ev"
    by (simp add: isTokenEvent_def isAdvance_def)
  have s: "startSession (\<lambda>_. 0) 1 (initApp [pEmpty] emptyStats) = nextPattern 1 emptyStart"
    by (simp add: startSession_def emptyStart_def)
  from empty_pattern_ignores_tokens [of emptyStart pEmpty "[]" "nextPattern 1 emptyStart" 1
      "[AddKey 2 2 ''a'', AddKey 3 3 ''LC'', Advance 4, AddKey 5 5 '' '']"] h e s
  show ?thesis by blast
qed

section \<open>Properties of the session\<close>

text \<open>
  Claim C4 at \<open>staleTrace\<close>.  The deferred call of the stopped session is delivered in the
  second session (\<open>inSession\<close> is true again) and replaces the active pattern \<open>a\<close> by \<open>b\<close>;
  after \<open>b\<close> the queue is empty and the second session ends as completed with one pattern
  counted, while \<open>a\<close> was never completed: it has no row of statistics at all.
\<close>

theorem C4_stale_advance:
  "\<not> inSession (run (initApp [pA, pB] emptyStats) staleTrace) \<and>
   map Completed (Sessions (stats (run (initApp [pA, pB] emptyStats) staleTrace))) = [False, True] \<and>
   map PatternsTotal (Sessions (stats (run (initApp [pA, pB] emptyStats) staleTrace))) = [1, 1] \<and>
   perfectCompletions (initApp [pA, pB] emptyStats) staleTrace = [pB, pB] \<and>
   PatternStats (stats (run (initApp [pA, pB] emptyStats) staleTrace)) ''a'' = None"
  by code_simp

text \<open>
  Claim C10 at \<open>emptyStaleTrace\<close>.  The pattern with the empty string is active and one
  deferred call, started by the completion of \<open>a\<close>, is still pending; its delivery finds
  the queue empty and ends the session as completed, with the empty pattern active and
  never completed.
\<close>

theorem C10_stale_advance:
  "inSession (run (initApp [pA, pEmpty] emptyStats) emptyStaleTrace) \<and>
   isActive (run (initApp [pA, pEmpty] emptyStats) emptyStaleTrace) \<and>
   currentPattern (run (initApp [pA, pEmpty] emptyStats) emptyStaleTrace) = pEmpty \<and>
   pending (run (initApp [pA, pEmpty] emptyStats) emptyStaleTrace) = 1 \<and>
   \<not> inSession (step (run (initApp [pA, pEmpty] emptyStats) emptyStaleTrace) (Advance 705)) \<and>
   currentPattern (step (run (initApp [pA, pEmpty] emptyStats) emptyStaleTrace) (Advance 705)) = pEmpty \<and>
   map Completed (Sessions (stats (step (run (initApp [pA, pEmpty] emptyStats) emptyStaleTrace)
      (Advance 705)))) = [False, True] \<and>
   perfectCompletions (initApp [pA, pEmpty] emptyStats) (emptyStaleTrace @ [Advance 705]) = [pA, pA]"
  by code_simp

lemma finishPattern_counts:
  assumes "isActive app"
  shows "sessionTotal (finishPattern fin app) = sessionTotal app + 1 \<and>
         sessionPerfect (finishPattern fin app) =
           (if resetCount app = 0 then sessionPerfect app + 1 else sessionPerfect app) \<and>
         patternQueue (finishPattern fin app) =
           (if resetCount app = 0 then patternQueue app
            else patternQueue app @ [currentPattern app]) \<and>
         pending (finishPattern fin app) = Suc (pending app) \<and>
         inSession (finishPattern fin app) = inSession app \<and>
         allPatterns (finishPattern fin app) = allPatterns app \<and>
         Sessions (stats (finishPattern fin app)) = Sessions (stats app)"
  using assms
  by (simp add: finishPattern_def Let_def save_def recordAttempt_def getPatternStats_def
      split: option.split)

lemma nextPattern_completes_only_empty:
  "Sessions (stats (nextPattern now app)) =
     (if inSession app \<and> patternQueue app = [] then
        Sessions (stats app) @
          [\<lparr>StartTime = sessionStart app, EndTime = now,
            Duration = sub now (sessionStart app), PatternsTotal = sessionTotal app,
            PatternsPerfect = sessionPerfect app, Completed = True\<rparr>]
      else Sessions (stats app))"
  by (simp add: nextPattern_def sessionComplete_def endSession_def save_def Let_def
      split: list.split)

lemma addKey_completes:
  assumes "completes app key"
  shows "addKey now fin key app =
     finishPattern fin
       (app\<lparr>startTime := (if startTime app = 0 then now else startTime app),
            inputBuffer := inputBuffer app @ [key]\<rparr>)"
  using assms by (simp add: addKey_def completes_def Let_def)

lemma addKey_not_completes:
  assumes "\<not> completes app key"
  shows "inSession (addKey now fin key app) = inSession app \<and>
         isActive (addKey now fin key app) = isActive app \<and>
         allPatterns (addKey now fin key app) = allPatterns app \<and>
         patternQueue (addKey now fin key app) = patternQueue app \<and>
         currentPattern (addKey now fin key app) = currentPattern app \<and>
         pending (addKey now fin key app) = pending app"
proof (cases "isActive app")
  case False
  then show ?thesis by (simp add: addKey_def)
next
  case act: True
  show ?thesis
  proof (cases "prefix (concat (inputBuffer app @ [key])) (Pattern (currentPattern app))")
    case False
    with act show ?thesis by (simp add: addKey_def Let_def)
  next
    case True
    with act assms
    have "\<not> length (Pattern (currentPattern app)) \<le> length (concat (inputBuffer app @ [key]))"
      by (simp add: completes_def)
    with act True show ?thesis by (simp add: addKey_def Let_def)
  qed
qed

lemma cleanInv_addKey:
  assumes "cleanInv done app"
  shows "cleanInv (done @ (if completes app key \<and> resetCount app = 0 then [currentPattern app] else []))
           (addKey now fin key app)"
proof (cases "completes app key")
  case False
  with assms addKey_not_completes [OF False, of now fin] show ?thesis
    by (auto simp: cleanInv_def split: if_splits)
next
  case True
  let ?a = "app\<lparr>startTime := (if startTime app = 0 then now else startTime app),
            inputBuffer := inputBuffer app @ [key]\<rparr>"
  let ?f = "addKey now fin key app"
  have act: "isActive app" using True by (simp add: completes_def)
  then have act': "isActive ?a" by simp
  have eq: "?f = finishPattern fin ?a" by (rule addKey_completes [OF True])
  have f1: "\<not> isActive ?f" "inSession ?f = inSession app" "allPatterns ?f = allPatterns app"
    "pending ?f = Suc (pending app)"
    "patternQueue ?f = (if resetCount app = 0 then patternQueue app
            else patternQueue app @ [currentPattern app])"
    unfolding eq using finishPattern_counts [OF act', of fin] finishPattern_fields(3) [of fin ?a]
    by simp_all
  show ?thesis
  proof (cases "inSession app")
    case False
    with assms f1 show ?thesis by (auto simp: cleanInv_def)
  next
    case inS: True
    with assms act have sub: "set (allPatterns app) \<subseteq>
        set done \<union> set (patternQueue app) \<union> {currentPattern app}"
      and p: "pending app = 0"
      by (simp_all add: cleanInv_def)
    show ?thesis
    proof (cases "resetCount app = 0")
      case True
      with sub p inS f1 \<open>completes app key\<close> show ?thesis
        unfolding cleanInv_def by auto
    next
      case False
      with sub p inS f1 \<open>completes app key\<close> show ?thesis
        unfolding cleanInv_def by auto
    qed
  qed
qed

lemma cleanInv_nextPattern:
  assumes "inSession app" "\<not> isActive app" "pending app = 0"
    and "set (allPatterns app) \<subseteq> set done \<union> set (patternQueue app)"
  shows "cleanInv done (nextPattern now app)"
  using assms
  by (auto simp: cleanInv_def nextPattern_def sessionComplete_def split: list.split)

lemma cleanInv_advance:
  assumes "cleanInv done app"
  shows "cleanInv done (advance now app)"
proof (cases "inSession app \<and> \<not> isActive app")
  case True
  with assms have p: "pending app = 1"
    and sub: "set (allPatterns app) \<subseteq> set done \<union> set (patternQueue app)"
    by (simp_all add: cleanInv_def)
  have "advance now app = nextPattern now (app\<lparr>pending := 0\<rparr>)"
    using p True by (simp add: advance_def Let_def)
  moreover have "cleanInv done (nextPattern now (app\<lparr>pending := 0\<rparr>))"
    using True sub by (intro cleanInv_nextPattern) simp_all
  ultimately show ?thesis by simp
next
  case False
  then consider "\<not> inSession app" | "inSession app" "isActive app" by blast
  then show ?thesis
  proof cases
    case 1
    with assms show ?thesis by (simp add: advance_def Let_def cleanInv_def)
  next
    case 2
    with assms have "pending app = 0" by (simp add: cleanInv_def)
    then show ?thesis using assms by (simp add: advance_def)
  qed
qed

lemma cleanInv_run:
  assumes "cleanInv done app" "\<forall>ev\<in>set evs. isKeyOrAdvance ev"
  shows "cleanInv (done @ perfectCompletions app evs) (run app evs)"
  using assms
proof (induction evs arbitrary: app "done")
  case Nil
  then show ?case by (simp add: run_def)
next
  case (Cons ev evs)
  from Cons.prems(2) have ok: "isKeyOrAdvance ev" and rest: "\<forall>ev\<in>set evs. isKeyOrAdvance ev"
    by simp_all
  let ?d = "case ev of
        AddKey now fin key \<Rightarrow>
          if completes app key \<and> resetCount app = 0 then [currentPattern app] else []
      | _ \<Rightarrow> []"
  have "cleanInv (done @ ?d) (step app ev)"
    using ok Cons.prems(1) cleanInv_addKey cleanInv_advance
    by (cases ev) (simp_all add: isKeyOrAdvance_def)
  from Cons.IH [OF this rest] show ?case by (simp add: run_def)
qed

lemma set_shuffleFrom: "i < length xs \<Longrightarrow> set (shuffleFrom rnd i xs) = set xs"
proof (induction i arbitrary: xs)
  case 0
  then show ?case by simp
next
  case (Suc i)
  have j: "rnd (Suc i) mod (Suc i + 1) < length xs"
    using Suc.prems by (simp add: less_le_trans [OF mod_less_divisor])
  let ?ys = "xs[Suc i := xs ! (rnd (Suc i) mod (Suc i + 1)), rnd (Suc i) mod (Suc i + 1) := xs ! Suc i]"
  have "set ?ys = set xs" using Suc.prems j by (simp add: set_swap)
  moreover have "i < length ?ys" using Suc.prems by simp
  ultimately show ?case using Suc.IH [of ?ys] by (simp add: Let_def)
qed

lemma set_shufflePatterns: "set (patternQueue (shufflePatterns rnd app)) = set (allPatterns app)"
proof (cases "allPatterns app")
  case Nil
  then show ?thesis by (simp add: shufflePatterns_def)
next
  case (Cons p ps)
  then show ?thesis by (simp add: shufflePatterns_def set_shuffleFrom)
qed

lemma cleanInv_startSession:
  assumes "pending app = 0"
  shows "cleanInv [] (startSession rnd now app)"
proof -
  let ?a = "(shufflePatterns rnd app)\<lparr>currentIndex := 0, inSession := True,
      sessionPerfect := 0, sessionTotal := 0, sessionStart := now\<rparr>"
  have q: "set (patternQueue ?a) = set (allPatterns ?a)"
    using set_shufflePatterns [of rnd app] by (simp add: shufflePatterns_def)
  have p: "pending ?a = 0" using assms by (simp add: shufflePatterns_def)
  show ?thesis
    unfolding startSession_def
    using q p
    by (auto simp: cleanInv_def nextPattern_def sessionComplete_def split: list.split)
qed

lemma allPatterns_startSession: "allPatterns (startSession rnd now app) = allPatterns app"
  by (simp add: startSession_def nextPattern_def sessionComplete_def shufflePatterns_def
      split: list.split)

lemma allPatterns_step: "allPatterns (step app ev) = allPatterns app"
  by (cases ev)
    (auto simp: allPatterns_startSession addKey_def finishPattern_def advance_def nextPattern_def
      sessionComplete_def stopSession_def Let_def split: list.split)

lemma allPatterns_run: "allPatterns (run app evs) = allPatterns app"
  unfolding run_def by (induction evs arbitrary: app) (simp_all add: allPatterns_step)

text \<open>
  What else the claim about the end of a session says holds.  A session is recorded as
  completed only by \<open>nextPattern\<close> on an empty queue
  (\<open>nextPattern_completes_only_empty\<close>); every completion adds one to \<open>sessionTotal\<close>,
  with zero resets one to \<open>sessionPerfect\<close> and nothing to the queue, otherwise the
  pattern to the tail of the queue (\<open>finishPattern_counts\<close>).  A session
  that starts with no deferred call pending and then sees only keys and deferred calls has
  ended (as no stop occurs, by completion) only after every pattern was completed with
  zero resets.
\<close>

lemma clean_session_perfects:
  assumes "pending app = 0" and "\<forall>ev\<in>set evs. isKeyOrAdvance ev"
    and "\<not> inSession (run (startSession rnd now app) evs)"
  shows "set (allPatterns app) \<subseteq> set (perfectCompletions (startSession rnd now app) evs)"
  using cleanInv_run [OF cleanInv_startSession [OF assms(1), of rnd now] assms(2)] assms(3)
  by (simp add: cleanInv_def allPatterns_run allPatterns_startSession)

end
